theory Spec2Isabelle
  imports Complex_Main
begin

section \<open>Exceptions, advisories and the artifacts on disk\<close>

text \<open>
  The embedding follows \<^verbatim>\<open>keypoint_moseq/fitting.py\<close>. Every Python exception that the
  modelled functions raise, catch or let through is a value of \<open>exn\<close>; a function that may
  raise returns \<open>exn + 'a\<close> with \<open>Inl\<close> for the exception. \<open>Fault\<close> stands for any other
  exception of an external collaborator.
\<close>

datatype exn =
    StopResampling
  | KeyboardInterrupt
  | AssertionError
  | TypeError
  | ValueError
  | KeyError
  | OverflowError
  | Fault string

text \<open>
  A path is the list of components handed to \<^verbatim>\<open>os.path.join\<close>. Whatever the functions
  print, warn about or hand to the plotting hook is appended to the messages the world has emitted,
  in the order of the calls.
\<close>

type_synonym path = "string list"

datatype message =
    Print_user_interruption
  | Warn_nans "string list"
  | Warn_parallel_cpu
  | Warn_no_progress_plots
  | Print_outputs_saved path
  | Print_saved_results path
  | Plot_progress path int

text \<open>
  The results of one recording (lines 244-250), and the metadata pair \<open>(keys, bounds)\<close>.
\<close>

record 'a recording_results =
  syllable :: "int list"
  latent_state :: "'a list"
  centroid :: "'a list"
  heading :: "'a list"

type_synonym metadata = "string list \<times> (int \<times> int) list"

text \<open>
  An HDF5 artifact: the groups \<^verbatim>\<open>model_snapshots/<iteration>\<close>, \<^verbatim>\<open>metadata\<close> and
  \<^verbatim>\<open>data\<close> of a checkpoint and the per-recording groups of a results file. The snapshot
  key \<^verbatim>\<open>f'{iteration}'\<close> is the decimal string of the iteration, which is kept as the
  integer it prints.
\<close>

record ('m, 'd, 'a) h5file =
  model_snapshots :: "int \<rightharpoonup> 'm"
  stored_metadata :: "metadata option"
  stored_data :: "'d option"
  recordings :: "string \<rightharpoonup> 'a recording_results"

record ('m, 'd, 'a) world =
  files :: "path \<rightharpoonup> ('m, 'd, 'a) h5file"
  emitted :: "message list"

definition emit :: "message list \<Rightarrow> ('m, 'd, 'a) world \<Rightarrow> ('m, 'd, 'a) world" where
  "emit msgs w = w\<lparr>emitted := emitted w @ msgs\<rparr>"

definition empty_h5 :: "('m, 'd, 'a) h5file" where
  "empty_h5 = \<lparr>model_snapshots = Map.empty, stored_metadata = None, stored_data = None,
     recordings = Map.empty\<rparr>"

definition open_append :: "(path \<rightharpoonup> ('m, 'd, 'a) h5file) \<Rightarrow> path \<Rightarrow> ('m, 'd, 'a) h5file" where
  "open_append fs p = (case fs p of None \<Rightarrow> empty_h5 | Some f \<Rightarrow> f)"

text \<open>
  Modelled from the spec: \<^verbatim>\<open>save_hdf5\<close> of \<^verbatim>\<open>keypoint_moseq.io\<close> is not among the
  sources. The spec gives the artifact incremental writes that add or overwrite sub-paths
  without destroying sibling data. The three shapes of call in \<^verbatim>\<open>fitting.py\<close> are: the
  whole checkpoint tree at the root (line 154), one model below
  \<^verbatim>\<open>model_snapshots/<iteration>\<close> (line 172), and a results dictionary at the root
  (line 253).
\<close>

definition save_hdf5_checkpoint ::
  "(path \<rightharpoonup> ('m, 'd, 'a) h5file) \<Rightarrow> path \<Rightarrow> (int \<rightharpoonup> 'm) \<Rightarrow> metadata \<Rightarrow> 'd
     \<Rightarrow> (path \<rightharpoonup> ('m, 'd, 'a) h5file)" where
  "save_hdf5_checkpoint fs p snapshots metadata data =
     fs(p \<mapsto> (open_append fs p)\<lparr>
       model_snapshots := model_snapshots (open_append fs p) ++ snapshots,
       stored_metadata := Some metadata,
       stored_data := Some data\<rparr>)"

definition save_hdf5_snapshot ::
  "(path \<rightharpoonup> ('m, 'd, 'a) h5file) \<Rightarrow> path \<Rightarrow> 'm \<Rightarrow> int \<Rightarrow> (path \<rightharpoonup> ('m, 'd, 'a) h5file)" where
  "save_hdf5_snapshot fs p model iteration =
     fs(p \<mapsto> (open_append fs p)\<lparr>
       model_snapshots := (model_snapshots (open_append fs p))(iteration \<mapsto> model)\<rparr>)"

definition save_hdf5_results ::
  "(path \<rightharpoonup> ('m, 'd, 'a) h5file) \<Rightarrow> path \<Rightarrow> (string \<rightharpoonup> 'a recording_results)
     \<Rightarrow> (path \<rightharpoonup> ('m, 'd, 'a) h5file)" where
  "save_hdf5_results fs p results_dict =
     fs(p \<mapsto> (open_append fs p)\<lparr>
       recordings := recordings (open_append fs p) ++ results_dict\<rparr>)"

section \<open>The external collaborators\<close>

text \<open>
  \<^verbatim>\<open>resample_model\<close>, \<^verbatim>\<open>check_for_nans\<close> and \<^verbatim>\<open>device_put_as_scalar\<close> belong to
  \<^verbatim>\<open>jax_moseq\<close>; the backend is what \<^verbatim>\<open>jax.default_backend()\<close> answers and \<open>now\<close> is
  the formatted \<^verbatim>\<open>datetime.now()\<close>. They are parameters of the model. The first argument
  of \<open>resample_model\<close> is the iteration at which the call is made: it stands for what the
  call depends on besides its arguments, such as a user interruption arriving while it
  runs. \<^verbatim>\<open>check_for_nans\<close> answers \<open>(any_nans, nan_info, messages)\<close>, of which the caller
  never reads \<open>nan_info\<close>. The keyword \<^verbatim>\<open>states_only\<close> is \<open>None\<close> when the caller does
  not pass it.
\<close>

datatype resample_options =
  Resample_options (opt_ar_only: bool) (opt_states_only: "bool option") (opt_verbose: bool)
    (opt_parallel_message_passing: bool)

record ('m, 'd) env =
  resample_model :: "int \<Rightarrow> 'd \<Rightarrow> 'm \<Rightarrow> resample_options \<Rightarrow> exn + 'm"
  check_for_nans :: "'m \<Rightarrow> bool \<times> string list"
  device_put_as_scalar :: "'m \<Rightarrow> 'm"
  default_backend :: string
  now :: string

section \<open>One resampling step and the parallelism flag\<close>

text \<open>
  \<^verbatim>\<open>_wrapped_resample\<close> (lines 19-38). Closing the progress bar has no effect on the
  modelled world.
\<close>

definition wrapped_resample ::
  "('m, 'd) env \<Rightarrow> int \<Rightarrow> 'd \<Rightarrow> 'm \<Rightarrow> resample_options \<Rightarrow> (exn + 'm) \<times> message list" where
  "wrapped_resample env iteration data model resample_options =
     (case resample_model env iteration data model resample_options of
        Inl e \<Rightarrow>
          if e = KeyboardInterrupt then (Inl StopResampling, [Print_user_interruption])
          else (Inl e, [])
      | Inr model' \<Rightarrow>
          (case check_for_nans env model' of
             (any_nans, messages) \<Rightarrow>
               if any_nans then (Inl StopResampling, [Warn_nans messages])
               else (Inr model', [])))"

text \<open>
  The argument \<^verbatim>\<open>parallel_message_passing\<close> is documented as \<^verbatim>\<open>bool | string\<close> with
  default \<^verbatim>\<open>None\<close>: the string \<^verbatim>\<open>'force'\<close>, \<^verbatim>\<open>None\<close>, or a boolean.
\<close>

datatype pmp_flag = Force | Unset | Explicit bool

text \<open>\<^verbatim>\<open>_set_parallel_flag\<close> (lines 41-51): the resolved flag and the warnings raised.\<close>

definition set_parallel_flag :: "string \<Rightarrow> pmp_flag \<Rightarrow> bool \<times> message list" where
  "set_parallel_flag backend parallel_message_passing =
     (case parallel_message_passing of
        Force \<Rightarrow> (True, [])
      | Unset \<Rightarrow> (backend \<noteq> ''cpu'', [])
      | Explicit b \<Rightarrow> (b, if b \<and> backend = ''cpu'' then [Warn_parallel_cpu] else []))"

section \<open>Fitting\<close>

text \<open>
  Both \<^verbatim>\<open>for\<close> loops of the file (lines 163-174 and 331-338) call
  \<^verbatim>\<open>_wrapped_resample\<close>, leave the loop with the model they had when it raises
  \<^verbatim>\<open>StopResampling\<close>, and otherwise adopt the new model and run the rest of the body,
  here \<open>step\<close>. Any other exception leaves the function.
\<close>

fun resample_loop ::
  "('m, 'd) env \<Rightarrow> 'd \<Rightarrow> resample_options \<Rightarrow> (int \<Rightarrow> 'm \<Rightarrow> ('m, 'd, 'a) world \<Rightarrow> ('m, 'd, 'a) world)
     \<Rightarrow> int list \<Rightarrow> 'm \<Rightarrow> ('m, 'd, 'a) world \<Rightarrow> (exn + 'm) \<times> ('m, 'd, 'a) world" where
  "resample_loop env data opts step [] model w = (Inr model, w)"
| "resample_loop env data opts step (iteration # rest) model w =
     (case wrapped_resample env iteration data model opts of
        (Inl e, msgs) \<Rightarrow> (if e = StopResampling then Inr model else Inl e, emit msgs w)
      | (Inr model', msgs) \<Rightarrow>
          resample_loop env data opts step rest model' (step iteration model' (emit msgs w)))"

text \<open>
  The rest of the body of the loop of \<^verbatim>\<open>fit_model\<close> (lines 170-174). The plotting hook
  \<^verbatim>\<open>plot_progress\<close> is recorded as a call that returns.
\<close>

definition checkpoint_step ::
  "int \<Rightarrow> int \<Rightarrow> int \<Rightarrow> bool \<Rightarrow> path \<Rightarrow> int \<Rightarrow> 'm \<Rightarrow> ('m, 'd, 'a) world \<Rightarrow> ('m, 'd, 'a) world" where
  "checkpoint_step num_iters start_iter save_every_n_iters generate_progress_plots
       checkpoint_path iteration model w =
     (if save_every_n_iters > 0 \<and> iteration > start_iter then
        if iteration mod save_every_n_iters = 0 \<or> iteration = num_iters then
          (let w1 = w\<lparr>files := save_hdf5_snapshot (files w) checkpoint_path model iteration\<rparr>
           in if generate_progress_plots then emit [Plot_progress checkpoint_path iteration] w1
              else w1)
        else w
      else w)"

text \<open>
  Lines 147-157: with \<^verbatim>\<open>project_dir=None\<close> the call \<^verbatim>\<open>os.path.join(project_dir, name)\<close>
  raises \<^verbatim>\<open>TypeError\<close>. Directories are not part of the world. When nothing is to be
  saved, \<^verbatim>\<open>checkpoint_path\<close> stays unbound and is never read; the empty path stands for it.
\<close>

definition init_checkpoint ::
  "'m \<Rightarrow> 'd \<Rightarrow> metadata \<Rightarrow> string option \<Rightarrow> string \<Rightarrow> int \<Rightarrow> int \<Rightarrow> ('m, 'd, 'a) world
     \<Rightarrow> exn + path \<times> ('m, 'd, 'a) world" where
  "init_checkpoint model data metadata project_dir name start_iter save_every_n_iters w =
     (if save_every_n_iters > 0 then
        (case project_dir of
           None \<Rightarrow> Inl TypeError
         | Some pd \<Rightarrow>
             (let savedir = [pd, name];
                  w1 = emit [Print_outputs_saved savedir] w;
                  checkpoint_path = savedir @ [''checkpoint.h5'']
              in if files w1 checkpoint_path = None then
                   Inr (checkpoint_path,
                     w1\<lparr>files := save_hdf5_checkpoint (files w1) checkpoint_path
                       [start_iter \<mapsto> model] metadata data\<rparr>)
                 else Inr (checkpoint_path, w1)))
      else Inr ([], w))"

text \<open>
  Lines 144-145: a run without a name is named after the current date and time.
\<close>

definition run_name :: "('m, 'd) env \<Rightarrow> string option \<Rightarrow> string" where
  "run_name env name = (case name of None \<Rightarrow> now env | Some n \<Rightarrow> n)"

text \<open>
  The keyword arguments of the call to \<^verbatim>\<open>_wrapped_resample\<close> in \<^verbatim>\<open>fit_model\<close>
  (lines 165-167), with the flag as line 159 resolves it.
\<close>

definition fit_resample_options :: "('m, 'd) env \<Rightarrow> bool \<Rightarrow> bool \<Rightarrow> pmp_flag \<Rightarrow> resample_options" where
  "fit_resample_options env ar_only verbose parallel_message_passing =
     Resample_options ar_only None verbose
       (fst (set_parallel_flag (default_backend env) parallel_message_passing))"

text \<open>\<^verbatim>\<open>fit_model\<close> (lines 54-176), with its keyword arguments in the order of the source.\<close>

definition fit_model ::
  "('m, 'd) env \<Rightarrow> 'm \<Rightarrow> 'd \<Rightarrow> metadata \<Rightarrow> string option \<Rightarrow> string option \<Rightarrow> int \<Rightarrow> int \<Rightarrow> bool
     \<Rightarrow> bool \<Rightarrow> int \<Rightarrow> bool \<Rightarrow> pmp_flag \<Rightarrow> ('m, 'd, 'a) world
     \<Rightarrow> (exn + 'm \<times> string) \<times> ('m, 'd, 'a) world" where
  "fit_model env model data metadata project_dir name num_iters start_iter verbose ar_only
       save_every_n_iters generate_progress_plots parallel_message_passing w =
     (let plots = (if generate_progress_plots \<and> save_every_n_iters = 0 then False
                   else generate_progress_plots);
          w1 = (if generate_progress_plots \<and> save_every_n_iters = 0
                then emit [Warn_no_progress_plots] w else w)
      in case init_checkpoint model data metadata project_dir (run_name env name) start_iter
                save_every_n_iters w1 of
           Inl e \<Rightarrow> (Inl e, w1)
         | Inr (checkpoint_path, w2) \<Rightarrow>
             (case resample_loop env data
                     (fit_resample_options env ar_only verbose parallel_message_passing)
                     (checkpoint_step num_iters start_iter save_every_n_iters plots
                        checkpoint_path)
                     [start_iter..num_iters] (device_put_as_scalar env model)
                     (emit (snd (set_parallel_flag (default_backend env)
                        parallel_message_passing)) w2) of
                (Inl e, w3) \<Rightarrow> (Inl e, w3)
              | (Inr model', w3) \<Rightarrow> (Inr (model', run_name env name), w3)))"

text \<open>
  What the theorems observe of the world: the snapshots of the artifact at a path, none
  when there is no file. A resampling step is clean when \<^verbatim>\<open>resample_model\<close> returns a
  model in which \<^verbatim>\<open>check_for_nans\<close> finds nothing.
\<close>

definition snapshots_of :: "('m, 'd, 'a) world \<Rightarrow> path \<Rightarrow> (int \<rightharpoonup> 'm)" where
  "snapshots_of w p = model_snapshots (open_append (files w) p)"

definition clean_step :: "('m, 'd) env \<Rightarrow> 'd \<Rightarrow> resample_options \<Rightarrow> int \<Rightarrow> 'm \<Rightarrow> 'm \<Rightarrow> bool" where
  "clean_step env data opts iteration model model' =
     (resample_model env iteration data model opts = Inr model'
      \<and> \<not> fst (check_for_nans env model'))"

section \<open>Extracting results\<close>

text \<open>
  The model dictionary with the keys the functions read; a key may be absent. The states
  are the batched arrays \<^verbatim>\<open>z\<close> (labels), \<^verbatim>\<open>x\<close> (latent trajectory), \<^verbatim>\<open>v\<close> (centroid)
  and \<^verbatim>\<open>h\<close> (heading), one row per recording; \<open>'a\<close> is what the float arrays hold at
  one time step. \<^verbatim>\<open>jax.device_get\<close> does not change the values it fetches.
\<close>

record 'a states =
  states_z :: "int list list"
  states_x :: "'a list list"
  states_v :: "'a list list"
  states_h :: "'a list list"

record ('a, 'p, 'h) model_dict =
  states :: "'a states option"
  params :: "'p option"
  hypparams :: "'h option"

text \<open>
  \<^verbatim>\<open>shape[1]\<close> of a batched array, read off its first row. A batch without rows has no
  recording, and nothing that is computed from \<^verbatim>\<open>shape[1]\<close> reaches the results then.
\<close>

definition shape1 :: "'e list list \<Rightarrow> int" where
  "shape1 batched = (case batched of [] \<Rightarrow> 0 | row # _ \<Rightarrow> int (length row))"

text \<open>
  Python's slices \<^verbatim>\<open>a[start:stop]\<close> and \<^verbatim>\<open>a[start:]\<close>: a negative index counts from the
  end, and an index outside the array is clipped to it.
\<close>

definition slice_index :: "nat \<Rightarrow> int \<Rightarrow> nat" where
  "slice_index n i = (if i < 0 then nat (int n + i) else min n (nat i))"

definition py_slice :: "'e list \<Rightarrow> int \<Rightarrow> int \<Rightarrow> 'e list" where
  "py_slice a start stop =
     take (slice_index (length a) stop - slice_index (length a) start)
       (drop (slice_index (length a) start) a)"

definition py_slice_from :: "'e list \<Rightarrow> int \<Rightarrow> 'e list" where
  "py_slice_from a start = drop (slice_index (length a) start) a"

text \<open>
  A Python dictionary with its insertion order: assigning to a key that is present
  replaces its value in place, a new key goes to the end.
\<close>

fun dict_set :: "('k \<times> 'v) list \<Rightarrow> 'k \<Rightarrow> 'v \<Rightarrow> ('k \<times> 'v) list" where
  "dict_set [] k v = [(k, v)]"
| "dict_set ((k', v') # d) k v = (if k' = k then (k, v) # d else (k', v') # dict_set d k v)"

text \<open>
  Modelled from the spec: \<^verbatim>\<open>unbatch\<close> belongs to \<^verbatim>\<open>jax_moseq.utils\<close> and is not among the
  sources. The spec: for each recording row \<open>r\<close> with offset \<open>(start, end)\<close> it extracts
  \<^verbatim>\<open>batched_array[r, start:end, ...]\<close>, under the precondition
  \<^verbatim>\<open>end <= batched_array.shape[1]\<close>, into a mapping from the keys, each entry of length
  \<open>end - start\<close>.
\<close>

definition unbatch :: "'e list list \<Rightarrow> string list \<Rightarrow> (int \<times> int) list \<Rightarrow> (string \<times> 'e list) list" where
  "unbatch batched keys bounds =
     foldl (\<lambda>d (k, row, (start, stop)). dict_set d k (py_slice row start stop)) []
       (zip keys (zip batched bounds))"

text \<open>
  \<^verbatim>\<open>np.pad(a, (n, 0), mode='edge')\<close> on a one-dimensional array: \<open>n\<close> copies of the first
  value in front. numpy refuses a negative width, and refuses to extend an empty axis.
\<close>

definition np_pad_edge_left :: "int list \<Rightarrow> int \<Rightarrow> exn + int list" where
  "np_pad_edge_left a n =
     (if n < 0 then Inl ValueError
      else if a = [] \<and> 0 < n then Inl ValueError
      else Inr (replicate (nat n) (hd a) @ a))"

fun sequence_sum :: "('e + 'b) list \<Rightarrow> 'e + 'b list" where
  "sequence_sum [] = Inr []"
| "sequence_sum (Inl e # rest) = Inl e"
| "sequence_sum (Inr y # rest) =
     (case sequence_sum rest of Inl e \<Rightarrow> Inl e | Inr ys \<Rightarrow> Inr (y # ys))"

definition lookup :: "('k \<times> 'v) list \<Rightarrow> 'k \<Rightarrow> exn + 'v" where
  "lookup d k = (case map_of d k of None \<Rightarrow> Inl KeyError | Some v \<Rightarrow> Inr v)"

text \<open>
  Modelled from the spec: \<^verbatim>\<open>_get_path\<close> belongs to \<^verbatim>\<open>keypoint_moseq.io\<close> and is not
  among the sources. The spec makes a save without a destination a fatal violation of a
  precondition; lines 319-324 of \<^verbatim>\<open>apply_model\<close> do the same with an assertion, which is
  followed here.
\<close>

definition get_path :: "path option \<Rightarrow> string option \<Rightarrow> string option \<Rightarrow> string \<Rightarrow> exn + path" where
  "get_path path project_dir name filename =
     (case path of
        Some p \<Rightarrow> Inr p
      | None \<Rightarrow>
          (case (project_dir, name) of
             (Some pd, Some n) \<Rightarrow> Inr [pd, n, filename]
           | _ \<Rightarrow> Inl AssertionError))"

text \<open>Lines 234-237: the labels of every recording.\<close>

definition extract_syllables :: "'a states \<Rightarrow> metadata \<Rightarrow> exn + (string \<times> int list) list" where
  "extract_syllables sts meta =
     (let nlags = shape1 (states_x sts) - shape1 (states_z sts);
          syllables = unbatch (states_z sts) (fst meta)
            (map (\<lambda>(start, stop). (start + 0, stop + nlags)) (snd meta))
      in case sequence_sum
                (map (\<lambda>(k, z). np_pad_edge_left (py_slice_from z nlags) nlags) syllables) of
           Inl e \<Rightarrow> Inl e
         | Inr padded \<Rightarrow> Inr (zip (map fst syllables) padded))"

text \<open>Lines 244-250: one record per key of the labels.\<close>

definition results_record ::
  "(string \<times> int list) list \<Rightarrow> (string \<times> 'a list) list \<Rightarrow> (string \<times> 'a list) list
     \<Rightarrow> (string \<times> 'a list) list \<Rightarrow> string \<Rightarrow> exn + string \<times> 'a recording_results" where
  "results_record syllables latent centroids headings recording_name =
     (case lookup syllables recording_name of
        Inl e \<Rightarrow> Inl e
      | Inr z \<Rightarrow>
     (case lookup latent recording_name of
        Inl e \<Rightarrow> Inl e
      | Inr x \<Rightarrow>
     (case lookup centroids recording_name of
        Inl e \<Rightarrow> Inl e
      | Inr v \<Rightarrow>
     (case lookup headings recording_name of
        Inl e \<Rightarrow> Inl e
      | Inr h \<Rightarrow>
          Inr (recording_name,
            \<lparr>syllable = z, latent_state = x, centroid = v, heading = h\<rparr>)))))"

text \<open>
  \<^verbatim>\<open>extract_results\<close> (lines 180-256); the path of line 229 is computed first, as in the
  source.
\<close>

definition extract_results ::
  "('a, 'p, 'h) model_dict \<Rightarrow> metadata \<Rightarrow> string option \<Rightarrow> string option \<Rightarrow> bool \<Rightarrow> path option
     \<Rightarrow> ('m, 'd, 'a) world
     \<Rightarrow> (exn + (string \<times> 'a recording_results) list) \<times> ('m, 'd, 'a) world" where
  "extract_results model meta project_dir name save_results path w =
     (case (if save_results
            then (case get_path path project_dir name ''results.h5'' of
                    Inl e \<Rightarrow> Inl e | Inr p \<Rightarrow> Inr (Some p))
            else Inr path) of
        Inl e \<Rightarrow> (Inl e, w)
      | Inr path' \<Rightarrow>
     (case states model of
        None \<Rightarrow> (Inl KeyError, w)
      | Some sts \<Rightarrow>
     (case extract_syllables sts meta of
        Inl e \<Rightarrow> (Inl e, w)
      | Inr syllables \<Rightarrow>
     (case sequence_sum
             (map (results_record syllables
                     (unbatch (states_x sts) (fst meta) (snd meta))
                     (unbatch (states_v sts) (fst meta) (snd meta))
                     (unbatch (states_h sts) (fst meta) (snd meta)))
                (map fst syllables)) of
        Inl e \<Rightarrow> (Inl e, w)
      | Inr results_dict \<Rightarrow>
          (case path' of
             Some p \<Rightarrow>
               if save_results
               then (Inr results_dict,
                     emit [Print_saved_results p]
                       (w\<lparr>files := save_hdf5_results (files w) p (map_of results_dict)\<rparr>))
               else (Inr results_dict, w)
           | None \<Rightarrow> (Inr results_dict, w))))))"

section \<open>Applying a model\<close>

text \<open>
  The keyword arguments of the call to \<^verbatim>\<open>_wrapped_resample\<close> in \<^verbatim>\<open>apply_model\<close>
  (lines 333-336).
\<close>

definition apply_resample_options :: "('m, 'd) env \<Rightarrow> bool \<Rightarrow> bool \<Rightarrow> pmp_flag \<Rightarrow> resample_options" where
  "apply_resample_options env ar_only verbose parallel_message_passing =
     Resample_options ar_only (Some True) verbose
       (fst (set_parallel_flag (default_backend env) parallel_message_passing))"

text \<open>Lines 319-324: where the results go.\<close>

definition apply_results_path ::
  "bool \<Rightarrow> path option \<Rightarrow> string option \<Rightarrow> string option \<Rightarrow> exn + path option" where
  "apply_results_path save_results results_path project_dir name =
     (if save_results \<and> results_path = None
      then (case (project_dir, name) of
              (Some pd, Some n) \<Rightarrow> Inr (Some [pd, n, ''results.h5''])
            | _ \<Rightarrow> Inl AssertionError)
      else Inr results_path)"

text \<open>
  \<^verbatim>\<open>apply_model\<close> (lines 259-341). \<^verbatim>\<open>init_model\<close> belongs to \<^verbatim>\<open>jax_moseq\<close> and is a
  parameter. \<^verbatim>\<open>tqdm.trange(num_iters)\<close> runs over \<open>0, ..., num_iters - 1\<close>, and the body
  of the loop is the call of \<^verbatim>\<open>_wrapped_resample\<close> alone.
\<close>

definition apply_model ::
  "(('a, 'p, 'h) model_dict, 'd) env \<Rightarrow> ('d \<Rightarrow> 'p \<Rightarrow> 'h \<Rightarrow> bool \<Rightarrow> ('a, 'p, 'h) model_dict)
     \<Rightarrow> ('a, 'p, 'h) model_dict \<Rightarrow> 'd \<Rightarrow> metadata \<Rightarrow> string option \<Rightarrow> string option \<Rightarrow> int
     \<Rightarrow> bool \<Rightarrow> bool \<Rightarrow> bool \<Rightarrow> path option \<Rightarrow> pmp_flag
     \<Rightarrow> (('a, 'p, 'h) model_dict, 'd, 'a) world
     \<Rightarrow> (exn + (string \<times> 'a recording_results) list)
         \<times> (('a, 'p, 'h) model_dict, 'd, 'a) world" where
  "apply_model env init_model model data meta project_dir name num_iters ar_only save_results
       verbose results_path parallel_message_passing w =
     (let w1 = emit (snd (set_parallel_flag (default_backend env) parallel_message_passing)) w
      in case apply_results_path save_results results_path project_dir name of
           Inl e \<Rightarrow> (Inl e, w1)
         | Inr results_path' \<Rightarrow>
        (case params model of
           None \<Rightarrow> (Inl KeyError, w1)
         | Some ps \<Rightarrow>
        (case hypparams model of
           None \<Rightarrow> (Inl KeyError, w1)
         | Some hs \<Rightarrow>
        (case resample_loop env data
                (apply_resample_options env ar_only verbose parallel_message_passing)
                (\<lambda>iteration model' w'. w')
                [0..num_iters - 1] (init_model data ps hs verbose) w1 of
           (Inl e, w2) \<Rightarrow> (Inl e, w2)
         | (Inr model', w2) \<Rightarrow>
             extract_results model' meta project_dir name save_results results_path' w2))))"

section \<open>Editing hyperparameters\<close>

text \<open>
  A hyperparameter is a Python scalar (an \<^verbatim>\<open>int\<close>, a \<^verbatim>\<open>float\<close> or a \<^verbatim>\<open>bool\<close>) or an
  array, which \<^verbatim>\<open>np.isscalar\<close> rejects; the new values are scalars. The floats \<open>'f\<close> and
  the conversions that involve them are parameters: \<^verbatim>\<open>float(n)\<close> raises
  \<^verbatim>\<open>OverflowError\<close> on a large \<^verbatim>\<open>int\<close>, \<^verbatim>\<open>int(x)\<close> raises on an infinity or a NaN, and
  \<^verbatim>\<open>bool(x)\<close> is true unless \<open>x\<close> is zero.
\<close>

datatype 'f scalar = PyInt int | PyFloat 'f | PyBool bool

datatype 'f hypval = Scalar "'f scalar" | NonScalar "'f list"

datatype scalar_type = IntT | FloatT | BoolT

record 'f float_ops =
  float_of_int :: "int \<Rightarrow> exn + 'f"
  int_of_float :: "'f \<Rightarrow> exn + int"
  bool_of_float :: "'f \<Rightarrow> bool"

fun type_of :: "'f scalar \<Rightarrow> scalar_type" where
  "type_of (PyInt n) = IntT"
| "type_of (PyFloat x) = FloatT"
| "type_of (PyBool b) = BoolT"

text \<open>\<^verbatim>\<open>isinstance(v, t)\<close>: \<^verbatim>\<open>bool\<close> is a subclass of \<^verbatim>\<open>int\<close>.\<close>

definition isinstance :: "'f scalar \<Rightarrow> scalar_type \<Rightarrow> bool" where
  "isinstance v t = (type_of v = t \<or> (type_of v = BoolT \<and> t = IntT))"

text \<open>The call \<^verbatim>\<open>t(v)\<close> of the type \<open>t\<close> on a scalar.\<close>

fun cast :: "'f float_ops \<Rightarrow> scalar_type \<Rightarrow> 'f scalar \<Rightarrow> exn + 'f scalar" where
  "cast ops IntT (PyInt n) = Inr (PyInt n)"
| "cast ops IntT (PyBool b) = Inr (PyInt (if b then 1 else 0))"
| "cast ops IntT (PyFloat x) =
     (case int_of_float ops x of Inl e \<Rightarrow> Inl e | Inr n \<Rightarrow> Inr (PyInt n))"
| "cast ops FloatT (PyInt n) =
     (case float_of_int ops n of Inl e \<Rightarrow> Inl e | Inr x \<Rightarrow> Inr (PyFloat x))"
| "cast ops FloatT (PyBool b) =
     (case float_of_int ops (if b then 1 else 0) of Inl e \<Rightarrow> Inl e | Inr x \<Rightarrow> Inr (PyFloat x))"
| "cast ops FloatT (PyFloat x) = Inr (PyFloat x)"
| "cast ops BoolT (PyInt n) = Inr (PyBool (n \<noteq> 0))"
| "cast ops BoolT (PyBool b) = Inr (PyBool b)"
| "cast ops BoolT (PyFloat x) = Inr (PyBool (bool_of_float ops x))"

datatype 'f hyp_message =
    Print_not_scalar string
  | Warn_type_cast string "'f scalar" scalar_type
  | Warn_not_found "string list"

text \<open>\<^verbatim>\<open>list.remove(x)\<close> removes the first \<open>x\<close> and raises \<^verbatim>\<open>ValueError\<close> when there is none.\<close>

definition list_remove :: "'k list \<Rightarrow> 'k \<Rightarrow> exn + 'k list" where
  "list_remove xs x = (if x \<in> set xs then Inr (remove1 x xs) else Inl ValueError)"

text \<open>
  The inner loop (lines 375-387) over the items of \<^verbatim>\<open>kwargs\<close>, for one group. The
  dictionary is changed in place, so that when an exception leaves the loop the group,
  the list \<^verbatim>\<open>not_updated\<close> and the messages are as they were at the raise. The result is
  the exception raised, if any, with that state.
\<close>

fun update_group ::
  "'f float_ops \<Rightarrow> (string \<times> 'f scalar) list \<Rightarrow> (string \<times> 'f hypval) list \<Rightarrow> string list
     \<Rightarrow> 'f hyp_message list
     \<Rightarrow> exn option \<times> (string \<times> 'f hypval) list \<times> string list \<times> 'f hyp_message list" where
  "update_group ops [] grp not_updated msgs = (None, grp, not_updated, msgs)"
| "update_group ops ((k, v) # kwargs) grp not_updated msgs =
     (case map_of grp k of
        None \<Rightarrow> update_group ops kwargs grp not_updated msgs
      | Some (NonScalar a) \<Rightarrow>
          update_group ops kwargs grp not_updated (msgs @ [Print_not_scalar k])
      | Some (Scalar old_value) \<Rightarrow>
          (let msgs' = (if isinstance v (type_of old_value) then msgs
                        else msgs @ [Warn_type_cast k v (type_of old_value)])
           in case cast ops (type_of old_value) v of
                Inl e \<Rightarrow> (Some e, grp, not_updated, msgs')
              | Inr new_value \<Rightarrow>
                  (case list_remove not_updated k of
                     Inl e \<Rightarrow> (Some e, dict_set grp k (Scalar new_value), not_updated, msgs')
                   | Inr not_updated' \<Rightarrow>
                       update_group ops kwargs (dict_set grp k (Scalar new_value))
                         not_updated' msgs')))"

text \<open>The outer loop (line 374) over the groups, in the order of the dictionary.\<close>

fun update_groups ::
  "'f float_ops \<Rightarrow> (string \<times> 'f scalar) list \<Rightarrow> (string \<times> (string \<times> 'f hypval) list) list
     \<Rightarrow> string list \<Rightarrow> 'f hyp_message list
     \<Rightarrow> exn option \<times> (string \<times> (string \<times> 'f hypval) list) list \<times> string list
         \<times> 'f hyp_message list" where
  "update_groups ops kwargs [] not_updated msgs = (None, [], not_updated, msgs)"
| "update_groups ops kwargs ((hypparms_group, grp) # rest) not_updated msgs =
     (case update_group ops kwargs grp not_updated msgs of
        (Some e, grp', not_updated', msgs') \<Rightarrow>
          (Some e, (hypparms_group, grp') # rest, not_updated', msgs')
      | (None, grp', not_updated', msgs') \<Rightarrow>
          (case update_groups ops kwargs rest not_updated' msgs' of
             (raised, rest', not_updated'', msgs'') \<Rightarrow>
               (raised, (hypparms_group, grp') # rest', not_updated'', msgs'')))"

text \<open>
  \<^verbatim>\<open>update_hypparams\<close> (lines 345-392): the exception raised, if any; the model dictionary
  as the call leaves it (on a normal return this is also the value returned); and the
  messages. \<^verbatim>\<open>kwargs\<close> is a dictionary, so its keys are distinct.
\<close>

definition update_hypparams ::
  "'f float_ops \<Rightarrow> ('a, 'p, (string \<times> (string \<times> 'f hypval) list) list) model_dict
     \<Rightarrow> (string \<times> 'f scalar) list
     \<Rightarrow> exn option \<times> ('a, 'p, (string \<times> (string \<times> 'f hypval) list) list) model_dict
         \<times> 'f hyp_message list" where
  "update_hypparams ops model_dict kwargs =
     (case hypparams model_dict of
        None \<Rightarrow> (Some AssertionError, model_dict, [])
      | Some groups \<Rightarrow>
          (case update_groups ops kwargs groups (map fst kwargs) [] of
             (Some e, groups', not_updated, msgs) \<Rightarrow>
               (Some e, model_dict\<lparr>hypparams := Some groups'\<rparr>, msgs)
           | (None, groups', not_updated, msgs) \<Rightarrow>
               (None, model_dict\<lparr>hypparams := Some groups'\<rparr>,
                if 0 < length not_updated then msgs @ [Warn_not_found not_updated] else msgs)))"

text \<open>The key is in the group and its value is a scalar.\<close>

definition scalar_key :: "(string \<times> 'f hypval) list \<Rightarrow> string \<Rightarrow> bool" where
  "scalar_key grp k = (case map_of grp k of Some (Scalar old_value) \<Rightarrow> True | _ \<Rightarrow> False)"

text \<open>
  A run to try the statements on: the model is a counter that every resampling step
  increases by one; \<^verbatim>\<open>check_for_nans\<close> finds a non-finite value in the model \<open>nan_model\<close>
  (if any), and the user interrupts the call made at iteration \<open>interrupt_at\<close> (if any).
  The world starts without files and without messages.
\<close>

definition counting_env :: "int option \<Rightarrow> int option \<Rightarrow> (int, unit) env" where
  "counting_env nan_model interrupt_at =
     \<lparr>resample_model = (\<lambda>i d m opts.
        if Some i = interrupt_at then Inl KeyboardInterrupt else Inr (m + 1)),
      check_for_nans = (\<lambda>m. (Some m = nan_model, [''x''])),
      device_put_as_scalar = (\<lambda>m. m),
      default_backend = ''cpu'',
      now = ''now''\<rparr>"

definition no_files :: "('m, 'd, 'a) world" where
  "no_files = \<lparr>files = Map.empty, emitted = []\<rparr>"

text \<open>
  Hyperparameters to try the statements on, with floats that are real numbers (no
  conversion fails). As in the models of \<^verbatim>\<open>jax_moseq\<close>, \<^verbatim>\<open>num_states\<close> is a scalar of
  two groups.
\<close>

definition real_float_ops :: "real float_ops" where
  "real_float_ops =
     \<lparr>float_of_int = (\<lambda>n. Inr (of_int n)),
      int_of_float = (\<lambda>x. Inr (if 0 \<le> x then \<lfloor>x\<rfloor> else \<lceil>x\<rceil>)),
      bool_of_float = (\<lambda>x. x \<noteq> 0)\<rparr>"

definition example_hypparams :: "(string \<times> (string \<times> real hypval) list) list" where
  "example_hypparams =
     [(''trans_hypparams'',
         [(''kappa'', Scalar (PyFloat 10)), (''num_states'', Scalar (PyInt 100))]),
      (''ar_hypparams'',
         [(''nlags'', Scalar (PyInt 3)), (''num_states'', Scalar (PyInt 100)),
          (''S_0'', NonScalar [1, 0, 0, 1])])]"

definition example_model ::
  "(unit, unit, (string \<times> (string \<times> real hypval) list) list) model_dict" where
  "example_model = \<lparr>states = None, params = None, hypparams = Some example_hypparams\<rparr>"

definition bare_model ::
  "(unit, unit, (string \<times> (string \<times> real hypval) list) list) model_dict" where
  "bare_model = \<lparr>states = None, params = None, hypparams = None\<rparr>"

text \<open>
  States to try the extraction on: one recording in rows of 60 frames, with labels of 55
  frames, so that \<^verbatim>\<open>nlags\<close> is 5. Frame \<open>t\<close> of every array holds \<open>t\<close>.
\<close>

definition lagged_states :: "int states" where
  "lagged_states =
     \<lparr>states_z = [map int [0..<55]], states_x = [map int [0..<60]],
      states_v = [map int [0..<60]], states_h = [map int [0..<60]]\<rparr>"

definition lagged_model :: "(int, unit, unit) model_dict" where
  "lagged_model = \<lparr>states = Some lagged_states, params = None, hypparams = None\<rparr>"

text \<open>The same with rows that end where the recording ends: 50 frames, 45 of labels.\<close>

definition tight_states :: "int states" where
  "tight_states =
     \<lparr>states_z = [map int [0..<45]], states_x = [map int [0..<50]],
      states_v = [map int [0..<50]], states_h = [map int [0..<50]]\<rparr>"

definition tight_model :: "(int, unit, unit) model_dict" where
  "tight_model = \<lparr>states = Some tight_states, params = None, hypparams = None\<rparr>"

text \<open>
  An environment to try \<^verbatim>\<open>apply_model\<close> on: resampling leaves the model as it is, and
  faults unless it is asked for the states only; the initializer puts the given
  parameters and hyperparameters beside the states above.
\<close>

definition states_only_env :: "((int, unit, unit) model_dict, unit) env" where
  "states_only_env =
     \<lparr>resample_model = (\<lambda>i d m opts.
        if opt_states_only opts = Some True then Inr m else Inl (Fault ''params'')),
      check_for_nans = (\<lambda>m. (False, [])),
      device_put_as_scalar = (\<lambda>m. m),
      default_backend = ''cpu'',
      now = ''now''\<rparr>"

definition lagged_init :: "unit \<Rightarrow> unit \<Rightarrow> unit \<Rightarrow> bool \<Rightarrow> (int, unit, unit) model_dict" where
  "lagged_init d ps hs verbose = \<lparr>states = Some lagged_states, params = Some ps, hypparams = Some hs\<rparr>"

section \<open>Runs of the fitting loop\<close>

lemma emit_Nil [simp]: "emit [] w = w"
  by (simp add: emit_def)

lemma wrapped_resample_clean:
  "clean_step env data opts i m m' \<Longrightarrow> wrapped_resample env i data m opts = (Inr m', [])"
  by (auto simp: clean_step_def wrapped_resample_def split: prod.splits)

lemma resample_loop_prefix:
  "\<forall>i. a \<le> i \<and> i < k \<longrightarrow> clean_step env data opts i (s (i - 1)) (s i) \<Longrightarrow> a \<le> k \<Longrightarrow>
   resample_loop env data opts step ([a..k - 1] @ ys) (s (a - 1)) w
     = resample_loop env data opts step ys (s (k - 1))
         (fold (\<lambda>i. step i (s i)) [a..k - 1] w)"
proof (induction "nat (k - a)" arbitrary: a w)
  case 0
  then have "a = k" by simp
  then show ?case by simp
next
  case (Suc n)
  then have lt: "a < k" by linarith
  then have split: "[a..k - 1] = a # [a + 1..k - 1]"
    by (simp add: upto_rec1)
  have step_a: "wrapped_resample env a data (s (a - 1)) opts = (Inr (s a), [])"
    using Suc.prems(1) lt by (intro wrapped_resample_clean) simp
  have ih: "resample_loop env data opts step ([a + 1..k - 1] @ ys) (s (a + 1 - 1)) (step a (s a) w)
     = resample_loop env data opts step ys (s (k - 1))
         (fold (\<lambda>i. step i (s i)) [a + 1..k - 1] (step a (s a) w))"
    using Suc.hyps(2) Suc.prems lt by (intro Suc.hyps(1)) auto
  show ?case
    using ih by (simp add: split step_a)
qed

lemma snapshots_of_emit [simp]: "snapshots_of (emit msgs w) p = snapshots_of w p"
  by (simp add: snapshots_of_def emit_def)

lemma files_emit [simp]: "files (emit msgs w) = files w"
  by (simp add: emit_def)

lemma snapshots_of_checkpoint_step:
  "snapshots_of (checkpoint_step num_iters start_iter n plots p i m w) q =
     (if 0 < n \<and> start_iter < i \<and> (i mod n = 0 \<or> i = num_iters) \<and> q = p
      then (snapshots_of w q)(i \<mapsto> m) else snapshots_of w q)"
  by (simp add: checkpoint_step_def Let_def snapshots_of_def save_hdf5_snapshot_def open_append_def)

lemma snapshots_of_fold:
  "snapshots_of (fold (\<lambda>i. checkpoint_step num_iters start_iter n plots p i (s i)) [a..b] w) q =
     (\<lambda>i. if 0 < n \<and> q = p \<and> a \<le> i \<and> i \<le> b \<and> start_iter < i \<and> (i mod n = 0 \<or> i = num_iters)
          then Some (s i) else snapshots_of w q i)"
proof (induction "nat (b + 1 - a)" arbitrary: a w)
  case 0
  then have "[a..b] = []" "b < a" by simp_all
  then show ?case by (intro ext) auto
next
  case (Suc k)
  then have le: "a \<le> b" by linarith
  then have split: "[a..b] = a # [a + 1..b]" by (simp add: upto_rec1)
  have ih: "snapshots_of (fold (\<lambda>i. checkpoint_step num_iters start_iter n plots p i (s i)) [a + 1..b]
        (checkpoint_step num_iters start_iter n plots p a (s a) w)) q =
     (\<lambda>i. if 0 < n \<and> q = p \<and> a + 1 \<le> i \<and> i \<le> b \<and> start_iter < i \<and> (i mod n = 0 \<or> i = num_iters)
          then Some (s i)
          else snapshots_of (checkpoint_step num_iters start_iter n plots p a (s a) w) q i)"
    using Suc.hyps(2) by (intro Suc.hyps(1)) linarith
  show ?case
    unfolding split fold_simps ih snapshots_of_checkpoint_step
    using le by (intro ext) auto
qed

lemma view_emit [simp]: "open_append (files (emit msgs w)) q = open_append (files w) q"
  by (simp add: emit_def)

lemma view_checkpoint_step:
  "open_append (files (checkpoint_step num_iters start_iter n plots p i m w)) q =
     (if 0 < n \<and> start_iter < i \<and> (i mod n = 0 \<or> i = num_iters) \<and> q = p
      then (open_append (files w) q)\<lparr>model_snapshots := (snapshots_of w q)(i \<mapsto> m)\<rparr>
      else open_append (files w) q)"
  by (simp add: checkpoint_step_def Let_def snapshots_of_def save_hdf5_snapshot_def open_append_def)

lemma view_fold:
  "open_append (files (fold (\<lambda>i. checkpoint_step num_iters start_iter n plots p i (s i)) [a..b] w)) q =
     (open_append (files w) q)\<lparr>model_snapshots :=
        snapshots_of (fold (\<lambda>i. checkpoint_step num_iters start_iter n plots p i (s i)) [a..b] w) q\<rparr>"
proof (induction "nat (b + 1 - a)" arbitrary: a w)
  case 0
  then have "[a..b] = []" by simp
  then show ?case by (simp add: snapshots_of_def)
next
  case (Suc k)
  then have le: "a \<le> b" by linarith
  then have split: "[a..b] = a # [a + 1..b]" by (simp add: upto_rec1)
  have ih: "open_append (files (fold (\<lambda>i. checkpoint_step num_iters start_iter n plots p i (s i)) [a + 1..b]
        (checkpoint_step num_iters start_iter n plots p a (s a) w))) q =
     (open_append (files (checkpoint_step num_iters start_iter n plots p a (s a) w)) q)\<lparr>model_snapshots :=
        snapshots_of (fold (\<lambda>i. checkpoint_step num_iters start_iter n plots p i (s i)) [a + 1..b]
          (checkpoint_step num_iters start_iter n plots p a (s a) w)) q\<rparr>"
    using Suc.hyps(2) by (intro Suc.hyps(1)) linarith
  show ?case
    unfolding split fold_simps ih
    by (simp add: view_checkpoint_step)
qed

lemma init_checkpoint_off:
  "\<not> 0 < n \<Longrightarrow> init_checkpoint model data metadata project_dir nm start_iter n w = Inr ([], w)"
  by (simp add: init_checkpoint_def)

lemma init_checkpoint_on:
  assumes "0 < n"
  obtains w0 where
    "init_checkpoint model data metadata (Some pd) nm start_iter n w
       = Inr ([pd, nm, ''checkpoint.h5''], w0)"
    "\<And>q. open_append (files w0) q =
       (if q = [pd, nm, ''checkpoint.h5''] \<and> files w q = None
        then \<lparr>model_snapshots = [start_iter \<mapsto> model], stored_metadata = Some metadata,
               stored_data = Some data, recordings = Map.empty\<rparr>
        else open_append (files w) q)"
proof (cases "files w [pd, nm, ''checkpoint.h5''] = None")
  case True
  show ?thesis
    by (rule that[of "(emit [Print_outputs_saved [pd, nm]] w)\<lparr>files :=
          save_hdf5_checkpoint (files w) [pd, nm, ''checkpoint.h5''] [start_iter \<mapsto> model]
            metadata data\<rparr>"])
      (use assms True in \<open>auto simp: init_checkpoint_def Let_def save_hdf5_checkpoint_def
          open_append_def empty_h5_def emit_def\<close>)
next
  case False
  show ?thesis
    by (rule that[of "emit [Print_outputs_saved [pd, nm]] w"])
      (use assms False in \<open>auto simp: init_checkpoint_def Let_def\<close>)
qed

lemma fit_model_before_loop:
  assumes "0 < n \<longrightarrow> project_dir = Some pd"
  obtains cp w0 plots where
    "fit_model env model data metadata project_dir name num_iters start_iter verbose ar_only n gpp pmp w =
       (case resample_loop env data (fit_resample_options env ar_only verbose pmp)
               (checkpoint_step num_iters start_iter n plots cp) [start_iter..num_iters]
               (device_put_as_scalar env model) w0 of
          (Inl e, w3) \<Rightarrow> (Inl e, w3)
        | (Inr m', w3) \<Rightarrow> (Inr (m', run_name env name), w3))"
    "0 < n \<Longrightarrow> cp = [pd, run_name env name, ''checkpoint.h5'']"
    "\<And>q. open_append (files w0) q =
       (if 0 < n \<and> q = [pd, run_name env name, ''checkpoint.h5''] \<and> files w q = None
        then \<lparr>model_snapshots = [start_iter \<mapsto> model], stored_metadata = Some metadata,
               stored_data = Some data, recordings = Map.empty\<rparr>
        else open_append (files w) q)"
proof (cases "0 < n")
  case True
  define w1 where "w1 = (if gpp \<and> n = 0 then emit [Warn_no_progress_plots] w else w)"
  have w1: "w1 = w" using True by (simp add: w1_def)
  from True assms have pd: "project_dir = Some pd" by simp
  obtain w0 where
    i1: "init_checkpoint model data metadata (Some pd) (run_name env name) start_iter n w
       = Inr ([pd, run_name env name, ''checkpoint.h5''], w0)" and
    i2: "\<And>q. open_append (files w0) q =
       (if q = [pd, run_name env name, ''checkpoint.h5''] \<and> files w q = None
        then \<lparr>model_snapshots = [start_iter \<mapsto> model], stored_metadata = Some metadata,
               stored_data = Some data, recordings = Map.empty\<rparr>
        else open_append (files w) q)"
    by (rule init_checkpoint_on[OF True, of model data metadata pd "run_name env name" start_iter w]) blast
  show ?thesis
  proof (rule that[of gpp "[pd, run_name env name, ''checkpoint.h5'']"
        "emit (snd (set_parallel_flag (default_backend env) pmp)) w0"])
    show "fit_model env model data metadata project_dir name num_iters start_iter verbose ar_only n gpp pmp w =
       (case resample_loop env data (fit_resample_options env ar_only verbose pmp)
               (checkpoint_step num_iters start_iter n gpp [pd, run_name env name, ''checkpoint.h5''])
               [start_iter..num_iters] (device_put_as_scalar env model)
               (emit (snd (set_parallel_flag (default_backend env) pmp)) w0) of
          (Inl e, w3) \<Rightarrow> (Inl e, w3)
        | (Inr m', w3) \<Rightarrow> (Inr (m', run_name env name), w3))"
      using True by (simp add: fit_model_def pd i1)
  qed (use True i2 in simp_all)
next
  case False
  define plots where "plots = (if gpp \<and> n = 0 then False else gpp)"
  define w1 where "w1 = (if gpp \<and> n = 0 then emit [Warn_no_progress_plots] w else w)"
  have v1: "\<And>q. open_append (files w1) q = open_append (files w) q"
    by (simp add: w1_def)
  show ?thesis
  proof (rule that[of plots "[]" "emit (snd (set_parallel_flag (default_backend env) pmp)) w1"])
    show "fit_model env model data metadata project_dir name num_iters start_iter verbose ar_only n gpp pmp w =
       (case resample_loop env data (fit_resample_options env ar_only verbose pmp)
               (checkpoint_step num_iters start_iter n plots [])
               [start_iter..num_iters] (device_put_as_scalar env model)
               (emit (snd (set_parallel_flag (default_backend env) pmp)) w1) of
          (Inl e, w3) \<Rightarrow> (Inl e, w3)
        | (Inr m', w3) \<Rightarrow> (Inr (m', run_name env name), w3))"
      using False by (simp add: fit_model_def init_checkpoint_off Let_def plots_def w1_def)
  qed (use False v1 in simp_all)
qed

text \<open>The artifact a run leaves at path q, given the snapshots the loop wrote.\<close>

lemma view_after_loop:
  assumes cp: "0 < n \<Longrightarrow> cp = P"
    and w0: "\<And>q. open_append (files w0) q =
       (if 0 < n \<and> q = P \<and> files w q = None
        then \<lparr>model_snapshots = [start_iter \<mapsto> model], stored_metadata = Some metadata,
               stored_data = Some data, recordings = Map.empty\<rparr>
        else open_append (files w) q)"
  shows "open_append (files (fold (\<lambda>i. checkpoint_step num_iters start_iter n plots cp i (s i)) [a..b] w0)) q =
     (if 0 < n \<and> q = P then
        (if files w q = None
         then \<lparr>model_snapshots = [start_iter \<mapsto> model], stored_metadata = Some metadata,
               stored_data = Some data, recordings = Map.empty\<rparr>
         else open_append (files w) q)
        \<lparr>model_snapshots := (\<lambda>i. if a \<le> i \<and> i \<le> b \<and> start_iter < i \<and> (i mod n = 0 \<or> i = num_iters)
             then Some (s i)
             else if files w q = None then [start_iter \<mapsto> model] i else snapshots_of w q i)\<rparr>
      else open_append (files w) q)"
proof -
  let ?S = "snapshots_of (fold (\<lambda>i. checkpoint_step num_iters start_iter n plots cp i (s i)) [a..b] w0) q"
  have base: "snapshots_of w0 q =
      (if 0 < n \<and> q = P \<and> files w q = None then [start_iter \<mapsto> model] else snapshots_of w q)"
    by (cases "q = P") (auto simp: snapshots_of_def w0)
  have "?S i = (if 0 < n \<and> q = P \<and> a \<le> i \<and> i \<le> b \<and> start_iter < i \<and> (i mod n = 0 \<or> i = num_iters)
             then Some (s i)
             else if 0 < n \<and> q = P \<and> files w q = None then [start_iter \<mapsto> model] i else snapshots_of w q i)" for i
    unfolding snapshots_of_fold base using cp by (cases "0 < n") auto
  then have S: "?S = (\<lambda>i. if 0 < n \<and> q = P \<and> a \<le> i \<and> i \<le> b \<and> start_iter < i \<and> (i mod n = 0 \<or> i = num_iters)
             then Some (s i)
             else if 0 < n \<and> q = P \<and> files w q = None then [start_iter \<mapsto> model] i else snapshots_of w q i)"
    by (intro ext)
  show ?thesis
    unfolding view_fold[of _ _ _ _ _ _ _ _ w0] S
    by (auto simp: w0 snapshots_of_def cong: if_cong)
qed

lemma fit_model_stopped:
  fixes w :: "('m, 'd, 'a) world" and metadata :: metadata and name :: "string option"
    and gpp :: bool
  assumes pd: "0 < n \<longrightarrow> project_dir = Some pd"
    and k: "start_iter \<le> k" "k \<le> num_iters"
    and s0: "s (start_iter - 1) = device_put_as_scalar env model"
    and clean: "\<forall>i. start_iter \<le> i \<and> i < k \<longrightarrow>
       clean_step env data (fit_resample_options env ar_only verbose pmp) i (s (i - 1)) (s i)"
    and stop: "wrapped_resample env k data (s (k - 1))
       (fit_resample_options env ar_only verbose pmp) = (Inl StopResampling, msgs)"
  defines "W \<equiv> fit_model env model data metadata project_dir name num_iters start_iter
       verbose ar_only n gpp pmp w"
  shows "fst W = Inr (s (k - 1), run_name env name)"
    and "open_append (files (snd W)) q =
     (if 0 < n \<and> q = [pd, run_name env name, ''checkpoint.h5''] then
        (if files w q = None
         then \<lparr>model_snapshots = [start_iter \<mapsto> model], stored_metadata = Some metadata,
               stored_data = Some data, recordings = Map.empty\<rparr>
         else open_append (files w) q)
        \<lparr>model_snapshots := (\<lambda>i. if start_iter \<le> i \<and> i \<le> k - 1 \<and> start_iter < i
                 \<and> (i mod n = 0 \<or> i = num_iters)
             then Some (s i)
             else if files w q = None then [start_iter \<mapsto> model] i else snapshots_of w q i)\<rparr>
      else open_append (files w) q)"
    and "\<exists>pre. emitted (snd W) = pre @ msgs"
proof -
  obtain cp plots and w0 :: "('m, 'd, 'a) world" where
    run: "W = (case resample_loop env data (fit_resample_options env ar_only verbose pmp)
               (checkpoint_step num_iters start_iter n plots cp) [start_iter..num_iters]
               (device_put_as_scalar env model) w0 of
          (Inl e, w3) \<Rightarrow> (Inl e, w3)
        | (Inr m', w3) \<Rightarrow> (Inr (m', run_name env name), w3))" and
    cp: "0 < n \<Longrightarrow> cp = [pd, run_name env name, ''checkpoint.h5'']" and
    w0: "\<And>q. open_append (files w0) q =
       (if 0 < n \<and> q = [pd, run_name env name, ''checkpoint.h5''] \<and> files w q = None
        then \<lparr>model_snapshots = [start_iter \<mapsto> model], stored_metadata = Some metadata,
               stored_data = Some data, recordings = Map.empty\<rparr>
        else open_append (files w) q)"
    unfolding W_def
    by (rule fit_model_before_loop[OF pd, of env model data metadata name num_iters start_iter
          verbose ar_only gpp pmp w]) blast
  let ?step = "checkpoint_step num_iters start_iter n plots cp"
  let ?w1 = "fold (\<lambda>i. ?step i (s i)) [start_iter..k - 1] w0"
  have split: "[start_iter..num_iters] = [start_iter..k - 1] @ k # [k + 1..num_iters]"
    using k by (rule upto_split3)
  have loop: "resample_loop env data (fit_resample_options env ar_only verbose pmp) ?step
      [start_iter..num_iters] (device_put_as_scalar env model) w0
     = (Inr (s (k - 1)), emit msgs ?w1)"
    unfolding split s0[symmetric]
    by (subst resample_loop_prefix[OF clean k(1)]) (simp add: stop)
  show "fst W = Inr (s (k - 1), run_name env name)"
    by (simp add: run loop)
  have W2: "snd W = emit msgs ?w1"
    by (simp add: run loop)
  show "\<exists>pre. emitted (snd W) = pre @ msgs"
    by (simp add: W2 emit_def)
  show "open_append (files (snd W)) q =
     (if 0 < n \<and> q = [pd, run_name env name, ''checkpoint.h5''] then
        (if files w q = None
         then \<lparr>model_snapshots = [start_iter \<mapsto> model], stored_metadata = Some metadata,
               stored_data = Some data, recordings = Map.empty\<rparr>
         else open_append (files w) q)
        \<lparr>model_snapshots := (\<lambda>i. if start_iter \<le> i \<and> i \<le> k - 1 \<and> start_iter < i
                 \<and> (i mod n = 0 \<or> i = num_iters)
             then Some (s i)
             else if files w q = None then [start_iter \<mapsto> model] i else snapshots_of w q i)\<rparr>
      else open_append (files w) q)"
    unfolding W2 view_emit
    by (rule view_after_loop[OF cp w0])
qed

lemma fit_model_completed:
  fixes w :: "('m, 'd, 'a) world" and metadata :: metadata and name :: "string option"
    and gpp :: bool
  assumes pd: "0 < n \<longrightarrow> project_dir = Some pd"
    and s0: "s (start_iter - 1) = device_put_as_scalar env model"
    and clean: "\<forall>i. start_iter \<le> i \<and> i \<le> num_iters \<longrightarrow>
       clean_step env data (fit_resample_options env ar_only verbose pmp) i (s (i - 1)) (s i)"
  defines "W \<equiv> fit_model env model data metadata project_dir name num_iters start_iter
       verbose ar_only n gpp pmp w"
  shows "fst W = Inr (s (max num_iters (start_iter - 1)), run_name env name)"
    and "open_append (files (snd W)) q =
     (if 0 < n \<and> q = [pd, run_name env name, ''checkpoint.h5''] then
        (if files w q = None
         then \<lparr>model_snapshots = [start_iter \<mapsto> model], stored_metadata = Some metadata,
               stored_data = Some data, recordings = Map.empty\<rparr>
         else open_append (files w) q)
        \<lparr>model_snapshots := (\<lambda>i. if start_iter \<le> i \<and> i \<le> num_iters \<and> start_iter < i
                 \<and> (i mod n = 0 \<or> i = num_iters)
             then Some (s i)
             else if files w q = None then [start_iter \<mapsto> model] i else snapshots_of w q i)\<rparr>
      else open_append (files w) q)"
proof -
  obtain cp plots and w0 :: "('m, 'd, 'a) world" where
    run: "W = (case resample_loop env data (fit_resample_options env ar_only verbose pmp)
               (checkpoint_step num_iters start_iter n plots cp) [start_iter..num_iters]
               (device_put_as_scalar env model) w0 of
          (Inl e, w3) \<Rightarrow> (Inl e, w3)
        | (Inr m', w3) \<Rightarrow> (Inr (m', run_name env name), w3))" and
    cp: "0 < n \<Longrightarrow> cp = [pd, run_name env name, ''checkpoint.h5'']" and
    w0: "\<And>q. open_append (files w0) q =
       (if 0 < n \<and> q = [pd, run_name env name, ''checkpoint.h5''] \<and> files w q = None
        then \<lparr>model_snapshots = [start_iter \<mapsto> model], stored_metadata = Some metadata,
               stored_data = Some data, recordings = Map.empty\<rparr>
        else open_append (files w) q)"
    unfolding W_def
    by (rule fit_model_before_loop[OF pd, of env model data metadata name num_iters start_iter
          verbose ar_only gpp pmp w]) blast
  let ?step = "checkpoint_step num_iters start_iter n plots cp"
  let ?w1 = "fold (\<lambda>i. ?step i (s i)) [start_iter..num_iters] w0"
  have loop: "resample_loop env data (fit_resample_options env ar_only verbose pmp) ?step
      [start_iter..num_iters] (device_put_as_scalar env model) w0
     = (Inr (s (max num_iters (start_iter - 1))), ?w1)"
  proof (cases "start_iter \<le> num_iters + 1")
    case True
    have c: "\<forall>i. start_iter \<le> i \<and> i < num_iters + 1 \<longrightarrow>
       clean_step env data (fit_resample_options env ar_only verbose pmp) i (s (i - 1)) (s i)"
      using clean by simp
    have m: "max num_iters (start_iter - 1) = num_iters" using True by simp
    show ?thesis
      using resample_loop_prefix[OF c True, of ?step "[]" w0]
      by (simp add: s0 m)
  next
    case False
    then have "[start_iter..num_iters] = []" "max num_iters (start_iter - 1) = start_iter - 1"
      by simp_all
    then show ?thesis by (simp add: s0)
  qed
  show "fst W = Inr (s (max num_iters (start_iter - 1)), run_name env name)"
    by (simp add: run loop)
  have W2: "snd W = ?w1"
    by (simp add: run loop)
  show "open_append (files (snd W)) q =
     (if 0 < n \<and> q = [pd, run_name env name, ''checkpoint.h5''] then
        (if files w q = None
         then \<lparr>model_snapshots = [start_iter \<mapsto> model], stored_metadata = Some metadata,
               stored_data = Some data, recordings = Map.empty\<rparr>
         else open_append (files w) q)
        \<lparr>model_snapshots := (\<lambda>i. if start_iter \<le> i \<and> i \<le> num_iters \<and> start_iter < i
                 \<and> (i mod n = 0 \<or> i = num_iters)
             then Some (s i)
             else if files w q = None then [start_iter \<mapsto> model] i else snapshots_of w q i)\<rparr>
      else open_append (files w) q)"
    unfolding W2
    by (rule view_after_loop[OF cp w0])
qed

lemma snapshots_of_no_files [simp]: "snapshots_of no_files q i = None"
  by (simp add: snapshots_of_def open_append_def empty_h5_def no_files_def)

lemma files_no_files [simp]: "files no_files q = None"
  by (simp add: no_files_def)

lemma wrapped_resample_nans:
  "resample_model env i data m opts = Inr bad \<Longrightarrow> fst (check_for_nans env bad) \<Longrightarrow>
   wrapped_resample env i data m opts = (Inl StopResampling, [Warn_nans (snd (check_for_nans env bad))])"
  by (auto simp: wrapped_resample_def split: prod.splits)

lemma wrapped_resample_interrupt:
  "resample_model env i data m opts = Inl KeyboardInterrupt \<Longrightarrow>
   wrapped_resample env i data m opts = (Inl StopResampling, [Print_user_interruption])"
  by (simp add: wrapped_resample_def)

lemma snapshots_after_stop:
  assumes "open_append (files W) q =
     (if 0 < n \<and> q = P then
        (if files w q = None
         then \<lparr>model_snapshots = [start_iter \<mapsto> model], stored_metadata = Some metadata,
               stored_data = Some data, recordings = Map.empty\<rparr>
         else open_append (files w) q)
        \<lparr>model_snapshots := (\<lambda>i. if start_iter \<le> i \<and> i \<le> k - 1 \<and> start_iter < i
                 \<and> (i mod n = 0 \<or> i = num_iters)
             then Some (s i)
             else if files w q = None then [start_iter \<mapsto> model] i else snapshots_of w q i)\<rparr>
      else open_append (files w) q)"
    and "k \<le> num_iters"
  shows "snapshots_of W q =
     (\<lambda>i. if 0 < n \<and> q = P \<and> start_iter < i \<and> i < k \<and> i mod n = 0 then Some (s i)
          else if 0 < n \<and> q = P \<and> files w q = None \<and> i = start_iter then Some model
          else snapshots_of w q i)"
proof (intro ext)
  fix i
  show "snapshots_of W q i =
     (if 0 < n \<and> q = P \<and> start_iter < i \<and> i < k \<and> i mod n = 0 then Some (s i)
          else if 0 < n \<and> q = P \<and> files w q = None \<and> i = start_iter then Some model
          else snapshots_of w q i)"
    unfolding snapshots_of_def[of W] assms(1)
    using assms(2) by (auto simp: snapshots_of_def open_append_def empty_h5_def)
qed


section \<open>The loops of the hyperparameter update\<close>

lemma update_group_absent:
  "\<forall>(k, v)\<in>set kwargs. map_of grp k = None \<Longrightarrow>
   update_group ops kwargs grp nu ms = (None, grp, nu, ms)"
  by (induction kwargs) auto

lemma update_groups_absent:
  "\<forall>(g, grp)\<in>set groups. \<forall>(k, v)\<in>set kwargs. map_of grp k = None \<Longrightarrow>
   update_groups ops kwargs groups nu ms = (None, groups, nu, ms)"
  by (induction groups) (auto simp: update_group_absent)

lemma map_of_dict_set: "map_of (dict_set d k v) k' = (if k' = k then Some v else map_of d k')"
  by (induction d k v rule: dict_set.induct) auto

lemma update_group_not_updated:
  "update_group ops kwargs grp nu ms = (r, grp', nu', ms') \<Longrightarrow>
   set nu' \<subseteq> set nu \<and> (distinct nu \<longrightarrow> distinct nu')"
proof (induction kwargs arbitrary: grp nu ms)
  case Nil
  then show ?case by simp
next
  case (Cons kv kwargs)
  obtain k v where kv: "kv = (k, v)" by (cases kv)
  show ?case
  proof (cases "map_of grp k")
    case None
    with Cons kv show ?thesis by simp
  next
    case (Some hv)
    show ?thesis
    proof (cases hv)
      case (NonScalar a)
      with Cons kv Some show ?thesis by simp
    next
      case (Scalar old)
      show ?thesis
      proof (cases "cast ops (type_of old) v")
        case (Inl e)
        with Cons.prems kv Some Scalar show ?thesis by (simp add: Let_def)
      next
        case (Inr c)
        show ?thesis
        proof (cases "k \<in> set nu")
          case False
          with Cons.prems kv Some Scalar Inr show ?thesis
            by (simp add: Let_def list_remove_def)
        next
          case True
          with Cons.prems kv Some Scalar Inr
          have "update_group ops kwargs (dict_set grp k (Scalar c)) (remove1 k nu)
              (if isinstance v (type_of old) then ms else ms @ [Warn_type_cast k v (type_of old)])
            = (r, grp', nu', ms')"
            by (simp add: Let_def list_remove_def)
          from Cons.IH[OF this] show ?thesis
            using set_remove1_subset[of k nu] by auto
        qed
      qed
    qed
  qed
qed

lemma update_group_raises_when_removed:
  "(k, v) \<in> set kwargs \<Longrightarrow> map_of grp k = Some (Scalar old) \<Longrightarrow> k \<notin> set nu \<Longrightarrow>
   fst (update_group ops kwargs grp nu ms) \<noteq> None"
proof (induction kwargs arbitrary: grp nu ms)
  case Nil
  then show ?case by simp
next
  case (Cons kv kwargs)
  obtain k' v' where kv: "kv = (k', v')" by (cases kv)
  show ?case
  proof (cases "k' = k")
    case True
    with Cons.prems kv show ?thesis
      by (auto simp: Let_def list_remove_def split: sum.splits)
  next
    case False
    with Cons.prems kv have mem: "(k, v) \<in> set kwargs" by auto
    have keep: "map_of (dict_set grp k' x) k = Some (Scalar old)" for x
      using False Cons.prems(2) by (simp add: map_of_dict_set)
    have sub: "k \<notin> set (remove1 k' nu)"
      using Cons.prems(3) set_remove1_subset[of k' nu] by auto
    show ?thesis
      using Cons.IH[OF mem Cons.prems(2) Cons.prems(3)] Cons.IH[OF mem keep sub] kv
      by (auto simp: Let_def list_remove_def split: option.splits hypval.splits sum.splits)
  qed
qed

lemma update_group_removes:
  "(k, v) \<in> set kwargs \<Longrightarrow> map_of grp k = Some (Scalar old) \<Longrightarrow> distinct nu \<Longrightarrow>
   update_group ops kwargs grp nu ms = (None, grp', nu', ms') \<Longrightarrow> k \<notin> set nu'"
proof (induction kwargs arbitrary: grp nu ms)
  case Nil
  then show ?case by simp
next
  case (Cons kv kwargs)
  obtain k' v' where kv: "kv = (k', v')" by (cases kv)
  show ?case
  proof (cases "k' = k")
    case True
    from Cons.prems(2,4) kv True obtain c where
      run: "update_group ops kwargs (dict_set grp k (Scalar c)) (remove1 k nu)
              (if isinstance v' (type_of old) then ms else ms @ [Warn_type_cast k v' (type_of old)])
            = (None, grp', nu', ms')"
      by (auto simp: Let_def list_remove_def split: sum.splits if_splits)
    from update_group_not_updated[OF run] have "set nu' \<subseteq> set (remove1 k nu)" by simp
    with Cons.prems(3) show ?thesis by auto
  next
    case False
    with Cons.prems kv have mem: "(k, v) \<in> set kwargs" by auto
    have keep: "map_of (dict_set grp k' x) k = Some (Scalar old)" for x
      using False Cons.prems(2) by (simp add: map_of_dict_set)
    have d: "distinct (remove1 k' nu)" using Cons.prems(3) by simp
    show ?thesis
      using Cons.IH[OF mem Cons.prems(2) Cons.prems(3)] Cons.IH[OF mem keep d] kv Cons.prems(4)
      by (auto simp: Let_def list_remove_def split: option.splits hypval.splits sum.splits if_splits)
  qed
qed

lemma update_groups_raises_when_removed:
  "(g, grp) \<in> set groups \<Longrightarrow> (k, v) \<in> set kwargs \<Longrightarrow> map_of grp k = Some (Scalar old) \<Longrightarrow>
   k \<notin> set nu \<Longrightarrow> fst (update_groups ops kwargs groups nu ms) \<noteq> None"
proof (induction groups arbitrary: nu ms)
  case Nil
  then show ?case by simp
next
  case (Cons p groups)
  obtain g0 grp0 where p: "p = (g0, grp0)" by (cases p)
  obtain r grp0' nu' ms' where run: "update_group ops kwargs grp0 nu ms = (r, grp0', nu', ms')"
    by (cases "update_group ops kwargs grp0 nu ms") auto
  show ?case
  proof (cases r)
    case (Some e)
    with p run show ?thesis by simp
  next
    case None
    have "(g, grp) \<noteq> (g0, grp0)"
      using update_group_raises_when_removed[OF Cons.prems(2,3,4), of ops ms] run None
      by auto
    with Cons.prems(1) p have mem: "(g, grp) \<in> set groups" by auto
    from update_group_not_updated[OF run] Cons.prems(4) have "k \<notin> set nu'" by auto
    from Cons.IH[OF mem Cons.prems(2,3) this, of ms'] show ?thesis
      using p run None by (auto split: prod.splits)
  qed
qed

lemma update_groups_raises_twice:
  "(k, v) \<in> set kwargs \<Longrightarrow> distinct nu \<Longrightarrow>
   map_of grp1 k = Some (Scalar old1) \<Longrightarrow> map_of grp2 k = Some (Scalar old2) \<Longrightarrow>
   fst (update_groups ops kwargs (pre @ (g1, grp1) # mid @ (g2, grp2) # post) nu ms) \<noteq> None"
proof (induction pre arbitrary: nu ms)
  case Nil
  obtain r grp1' nu' ms' where run: "update_group ops kwargs grp1 nu ms = (r, grp1', nu', ms')"
    by (cases "update_group ops kwargs grp1 nu ms") auto
  show ?case
  proof (cases r)
    case (Some e)
    with run show ?thesis by simp
  next
    case None
    from update_group_removes[OF Nil(1,3,2) run[unfolded None]] have "k \<notin> set nu'" .
    from update_groups_raises_when_removed[OF _ Nil(1) Nil(4) this, of g2 "mid @ (g2, grp2) # post" ops ms']
    show ?thesis using run None by (auto split: prod.splits)
  qed
next
  case (Cons p pre)
  obtain g0 grp0 where p: "p = (g0, grp0)" by (cases p)
  obtain r grp0' nu' ms' where run: "update_group ops kwargs grp0 nu ms = (r, grp0', nu', ms')"
    by (cases "update_group ops kwargs grp0 nu ms") auto
  show ?case
  proof (cases r)
    case (Some e)
    with p run show ?thesis by simp
  next
    case None
    from update_group_not_updated[OF run] Cons.prems(2) have "distinct nu'" by simp
    from Cons.IH[OF Cons.prems(1) this Cons.prems(3,4), of ms'] show ?thesis
      using p run None by (auto split: prod.splits)
  qed
qed

lemma update_group_exception:
  "update_group ops kwargs grp nu ms = (Some e, grp', nu', ms') \<Longrightarrow>
   e = ValueError \<or> (\<exists>t u. cast ops t u = Inl e)"
proof (induction kwargs arbitrary: grp nu ms)
  case Nil
  then show ?case by simp
next
  case (Cons kv kwargs)
  obtain k v where kv: "kv = (k, v)" by (cases kv)
  from Cons.prems kv show ?case
    by (auto simp: Let_def list_remove_def split: option.splits hypval.splits sum.splits if_splits
          dest: Cons.IH)
qed

lemma update_groups_exception:
  "update_groups ops kwargs groups nu ms = (Some e, groups', nu', ms') \<Longrightarrow>
   e = ValueError \<or> (\<exists>t u. cast ops t u = Inl e)"
proof (induction groups arbitrary: nu ms groups')
  case Nil
  then show ?case by simp
next
  case (Cons p groups)
  obtain g0 grp0 where p: "p = (g0, grp0)" by (cases p)
  from Cons.prems p show ?case
    by (auto split: prod.splits option.splits dest: Cons.IH update_group_exception)
qed

lemma cast_type: "cast ops t v = Inr c \<Longrightarrow> type_of c = t"
  by (cases t; cases v) (auto split: sum.splits)

lemma scalar_key_iff: "scalar_key grp k = (\<exists>old. map_of grp k = Some (Scalar old))"
  by (auto simp: scalar_key_def split: option.splits hypval.splits)

lemma distinct_keys_value:
  "distinct (map fst kwargs) \<Longrightarrow> (k, v) \<in> set kwargs \<Longrightarrow> (k, u) \<in> set kwargs \<Longrightarrow> u = v"
  by (metis eq_key_imp_eq_value)

lemma update_group_runs:
  assumes "distinct (map fst kwargs)" and "distinct nu"
    and "\<forall>(k, v)\<in>set kwargs. \<forall>old. map_of grp k = Some (Scalar old) \<longrightarrow>
           k \<in> set nu \<and> (\<exists>c. cast ops (type_of old) v = Inr c)"
  shows "\<exists>grp' nu' ms'. update_group ops kwargs grp nu ms = (None, grp', nu', ms')
    \<and> set nu' = set nu - {k \<in> fst ` set kwargs. scalar_key grp k}
    \<and> (\<forall>k. k \<notin> fst ` set kwargs \<longrightarrow> map_of grp' k = map_of grp k)
    \<and> (\<forall>k v old. (k, v) \<in> set kwargs \<and> map_of grp k = Some (Scalar old) \<longrightarrow>
          (\<exists>c. cast ops (type_of old) v = Inr c \<and> map_of grp' k = Some (Scalar c)))
    \<and> (\<forall>k u t. Warn_type_cast k u t \<in> set ms' \<longleftrightarrow>
          Warn_type_cast k u t \<in> set ms
          \<or> (\<exists>old. (k, u) \<in> set kwargs \<and> map_of grp k = Some (Scalar old)
                \<and> t = type_of old \<and> \<not> isinstance u t))"
  using assms
proof (induction kwargs arbitrary: grp nu ms)
  case Nil
  then show ?case by simp
next
  case (Cons kv kwargs)
  obtain k v where kv: "kv = (k, v)" by (cases kv)
  from Cons.prems(1) kv have dk: "distinct (map fst kwargs)" and knew: "k \<notin> fst ` set kwargs"
    by auto
  have other: "k' \<noteq> k" if "(k', v') \<in> set kwargs" for k' v'
    using that knew by force
  show ?case
  proof (cases "scalar_key grp k")
    case False
    have ok: "\<forall>(k, v)\<in>set kwargs. \<forall>old. map_of grp k = Some (Scalar old) \<longrightarrow>
           k \<in> set nu \<and> (\<exists>c. cast ops (type_of old) v = Inr c)"
      using Cons.prems(3) by auto
    have step: "update_group ops (kv # kwargs) grp nu ms =
        update_group ops kwargs grp nu
          (case map_of grp k of Some (NonScalar a) \<Rightarrow> ms @ [Print_not_scalar k] | _ \<Rightarrow> ms)"
      using False kv by (auto simp: scalar_key_def split: option.splits hypval.splits)
    let ?ms = "case map_of grp k of Some (NonScalar a) \<Rightarrow> ms @ [Print_not_scalar k] | _ \<Rightarrow> ms"
    have same: "Warn_type_cast k' u t \<in> set ?ms \<longleftrightarrow> Warn_type_cast k' u t \<in> set ms" for k' u t
      by (auto split: option.splits hypval.splits)
    from Cons.IH[OF dk Cons.prems(2) ok, of ?ms] obtain grp' nu' ms' where
      run: "update_group ops kwargs grp nu ?ms = (None, grp', nu', ms')" and
      nu': "set nu' = set nu - {k \<in> fst ` set kwargs. scalar_key grp k}" and
      keep: "\<forall>k. k \<notin> fst ` set kwargs \<longrightarrow> map_of grp' k = map_of grp k" and
      vals: "\<forall>k v old. (k, v) \<in> set kwargs \<and> map_of grp k = Some (Scalar old) \<longrightarrow>
          (\<exists>c. cast ops (type_of old) v = Inr c \<and> map_of grp' k = Some (Scalar c))" and
      msgs: "\<forall>k u t. Warn_type_cast k u t \<in> set ms' \<longleftrightarrow>
          Warn_type_cast k u t \<in> set ?ms
          \<or> (\<exists>old. (k, u) \<in> set kwargs \<and> map_of grp k = Some (Scalar old)
                \<and> t = type_of old \<and> \<not> isinstance u t)"
      by blast
    have a: "set nu' = set nu - {k \<in> fst ` set (kv # kwargs). scalar_key grp k}"
      using nu' False kv by auto
    have b: "\<forall>k. k \<notin> fst ` set (kv # kwargs) \<longrightarrow> map_of grp' k = map_of grp k"
      using keep by auto
    have c: "\<forall>k v old. (k, v) \<in> set (kv # kwargs) \<and> map_of grp k = Some (Scalar old) \<longrightarrow>
          (\<exists>c. cast ops (type_of old) v = Inr c \<and> map_of grp' k = Some (Scalar c))"
      using vals False kv by (auto simp: scalar_key_iff)
    have d: "\<forall>k u t. Warn_type_cast k u t \<in> set ms' \<longleftrightarrow>
          Warn_type_cast k u t \<in> set ms
          \<or> (\<exists>old. (k, u) \<in> set (kv # kwargs) \<and> map_of grp k = Some (Scalar old)
                \<and> t = type_of old \<and> \<not> isinstance u t)"
      using msgs same False kv by (auto simp: scalar_key_iff)
    from run a b c d show ?thesis
      unfolding step by blast
  next
    case True
    then obtain old where old: "map_of grp k = Some (Scalar old)"
      by (auto simp: scalar_key_iff)
    from Cons.prems(3) kv old obtain c where kin: "k \<in> set nu"
      and c: "cast ops (type_of old) v = Inr c"
      by auto
    let ?grp = "dict_set grp k (Scalar c)"
    let ?nu = "remove1 k nu"
    let ?ms = "if isinstance v (type_of old) then ms else ms @ [Warn_type_cast k v (type_of old)]"
    have step: "update_group ops (kv # kwargs) grp nu ms = update_group ops kwargs ?grp ?nu ?ms"
      using kv old c kin by (simp add: Let_def list_remove_def)
    have same_map: "map_of ?grp k' = map_of grp k'" if "k' \<noteq> k" for k'
      using that by (simp add: map_of_dict_set)
    have set_nu: "set ?nu = set nu - {k}"
      using Cons.prems(2) by simp
    have ok: "\<forall>(k, v)\<in>set kwargs. \<forall>old. map_of ?grp k = Some (Scalar old) \<longrightarrow>
           k \<in> set ?nu \<and> (\<exists>c. cast ops (type_of old) v = Inr c)"
    proof (clarify)
      fix k' v' old'
      assume mem: "(k', v') \<in> set kwargs" and sc: "map_of ?grp k' = Some (Scalar old')"
      from other[OF mem] have ne: "k' \<noteq> k" .
      with sc have "map_of grp k' = Some (Scalar old')" by (simp add: same_map)
      with Cons.prems(3) mem have "k' \<in> set nu \<and> (\<exists>c. cast ops (type_of old') v' = Inr c)"
        by auto
      with ne set_nu show "k' \<in> set ?nu \<and> (\<exists>c. cast ops (type_of old') v' = Inr c)"
        by simp
    qed
    have dn: "distinct ?nu" using Cons.prems(2) by simp
    from Cons.IH[OF dk dn ok, of ?ms] obtain grp' nu' ms' where
      run: "update_group ops kwargs ?grp ?nu ?ms = (None, grp', nu', ms')" and
      nu': "set nu' = set ?nu - {k \<in> fst ` set kwargs. scalar_key ?grp k}" and
      keep: "\<forall>k. k \<notin> fst ` set kwargs \<longrightarrow> map_of grp' k = map_of ?grp k" and
      vals: "\<forall>k v old. (k, v) \<in> set kwargs \<and> map_of ?grp k = Some (Scalar old) \<longrightarrow>
          (\<exists>c. cast ops (type_of old) v = Inr c \<and> map_of grp' k = Some (Scalar c))" and
      msgs: "\<forall>k u t. Warn_type_cast k u t \<in> set ms' \<longleftrightarrow>
          Warn_type_cast k u t \<in> set ?ms
          \<or> (\<exists>old. (k, u) \<in> set kwargs \<and> map_of ?grp k = Some (Scalar old)
                \<and> t = type_of old \<and> \<not> isinstance u t)"
      by blast
    have sk: "scalar_key ?grp k' = scalar_key grp k'" if "k' \<in> fst ` set kwargs" for k'
    proof -
      from that knew have "k' \<noteq> k" by auto
      then show ?thesis by (simp add: scalar_key_iff same_map)
    qed
    have a: "set nu' = set nu - {k \<in> fst ` set (kv # kwargs). scalar_key grp k}"
      using nu' set_nu True kv sk by auto
    have b: "\<forall>k. k \<notin> fst ` set (kv # kwargs) \<longrightarrow> map_of grp' k = map_of grp k"
      using keep kv by (auto simp: same_map)
    have c': "\<forall>k' v' old'. (k', v') \<in> set (kv # kwargs) \<and> map_of grp k' = Some (Scalar old') \<longrightarrow>
          (\<exists>c. cast ops (type_of old') v' = Inr c \<and> map_of grp' k' = Some (Scalar c))"
    proof (intro allI impI, elim conjE)
      fix k' v' old'
      assume mem: "(k', v') \<in> set (kv # kwargs)" and sc: "map_of grp k' = Some (Scalar old')"
      show "\<exists>c. cast ops (type_of old') v' = Inr c \<and> map_of grp' k' = Some (Scalar c)"
      proof (cases "(k', v') = kv")
        case True
        with kv have e: "k' = k" "v' = v" by auto
        with sc old have "old' = old" by simp
        moreover have "map_of grp' k = Some (Scalar c)"
          using keep knew by (simp add: map_of_dict_set)
        ultimately show ?thesis using c e by auto
      next
        case False
        with mem have m: "(k', v') \<in> set kwargs" by auto
        from other[OF m] sc have "map_of ?grp k' = Some (Scalar old')" by (simp add: same_map)
        with vals m show ?thesis by blast
      qed
    qed
    have d: "\<forall>k' u t. Warn_type_cast k' u t \<in> set ms' \<longleftrightarrow>
          Warn_type_cast k' u t \<in> set ms
          \<or> (\<exists>old. (k', u) \<in> set (kv # kwargs) \<and> map_of grp k' = Some (Scalar old)
                \<and> t = type_of old \<and> \<not> isinstance u t)"
    proof (intro allI)
      fix k' u t
      have 1: "Warn_type_cast k' u t \<in> set ?ms \<longleftrightarrow> Warn_type_cast k' u t \<in> set ms
          \<or> (k' = k \<and> u = v \<and> t = type_of old \<and> \<not> isinstance v (type_of old))"
        by auto
      have 2: "(\<exists>old. (k', u) \<in> set kwargs \<and> map_of ?grp k' = Some (Scalar old)
                \<and> t = type_of old \<and> \<not> isinstance u t)
          \<longleftrightarrow> (\<exists>old. (k', u) \<in> set kwargs \<and> map_of grp k' = Some (Scalar old)
                \<and> t = type_of old \<and> \<not> isinstance u t)"
        using other same_map by metis
      have 3: "(\<exists>old'. (k', u) \<in> set (kv # kwargs) \<and> map_of grp k' = Some (Scalar old')
                \<and> t = type_of old' \<and> \<not> isinstance u t)
          \<longleftrightarrow> (k' = k \<and> u = v \<and> t = type_of old \<and> \<not> isinstance v (type_of old))
              \<or> (\<exists>old. (k', u) \<in> set kwargs \<and> map_of grp k' = Some (Scalar old)
                \<and> t = type_of old \<and> \<not> isinstance u t)"
        using kv old by auto
      show "Warn_type_cast k' u t \<in> set ms' \<longleftrightarrow>
          Warn_type_cast k' u t \<in> set ms
          \<or> (\<exists>old. (k', u) \<in> set (kv # kwargs) \<and> map_of grp k' = Some (Scalar old)
                \<and> t = type_of old \<and> \<not> isinstance u t)"
        unfolding 3 using msgs 1 2 by blast
    qed
    from run a b c' d show ?thesis
      unfolding step by blast
  qed
qed

lemma ex_nth_Cons: "(\<exists>i. i < length (x # xs) \<and> P i ((x # xs) ! i))
    \<longleftrightarrow> P 0 x \<or> (\<exists>i. i < length xs \<and> P (Suc i) (xs ! i))"
  by (auto simp: less_Suc_eq_0_disj)

lemma update_groups_runs:
  assumes "distinct (map fst kwargs)" and "distinct nu"
    and "\<forall>g grp k v old. (g, grp) \<in> set groups \<and> (k, v) \<in> set kwargs
           \<and> map_of grp k = Some (Scalar old) \<longrightarrow>
           k \<in> set nu \<and> (\<exists>c. cast ops (type_of old) v = Inr c)"
    and "\<forall>i i' k. i < length groups \<and> i' < length groups \<and> k \<in> fst ` set kwargs
           \<and> scalar_key (snd (groups ! i)) k \<and> scalar_key (snd (groups ! i')) k \<longrightarrow> i = i'"
  shows "\<exists>groups' nu' ms'. update_groups ops kwargs groups nu ms = (None, groups', nu', ms')
    \<and> length groups' = length groups
    \<and> (\<forall>i k v old. i < length groups \<and> (k, v) \<in> set kwargs
           \<and> map_of (snd (groups ! i)) k = Some (Scalar old) \<longrightarrow>
          (\<exists>c. cast ops (type_of old) v = Inr c \<and> map_of (snd (groups' ! i)) k = Some (Scalar c)))
    \<and> (\<forall>k u t. Warn_type_cast k u t \<in> set ms' \<longleftrightarrow>
          Warn_type_cast k u t \<in> set ms
          \<or> (\<exists>i. i < length groups \<and> (\<exists>old. (k, u) \<in> set kwargs
                \<and> map_of (snd (groups ! i)) k = Some (Scalar old)
                \<and> t = type_of old \<and> \<not> isinstance u t)))"
  using assms
proof (induction groups arbitrary: nu ms)
  case Nil
  then show ?case by simp
next
  case (Cons p groups)
  obtain g0 grp0 where p: "p = (g0, grp0)" by (cases p)
  have ok0: "\<forall>(k, v)\<in>set kwargs. \<forall>old. map_of grp0 k = Some (Scalar old) \<longrightarrow>
           k \<in> set nu \<and> (\<exists>c. cast ops (type_of old) v = Inr c)"
    using Cons.prems(3) p by fastforce
  from update_group_runs[OF Cons.prems(1,2) ok0, of ms] obtain grp0' nu1 ms1 where
    run0: "update_group ops kwargs grp0 nu ms = (None, grp0', nu1, ms1)" and
    nu1: "set nu1 = set nu - {k \<in> fst ` set kwargs. scalar_key grp0 k}" and
    vals0: "\<forall>k v old. (k, v) \<in> set kwargs \<and> map_of grp0 k = Some (Scalar old) \<longrightarrow>
          (\<exists>c. cast ops (type_of old) v = Inr c \<and> map_of grp0' k = Some (Scalar c))" and
    msgs0: "\<forall>k u t. Warn_type_cast k u t \<in> set ms1 \<longleftrightarrow>
          Warn_type_cast k u t \<in> set ms
          \<or> (\<exists>old. (k, u) \<in> set kwargs \<and> map_of grp0 k = Some (Scalar old)
                \<and> t = type_of old \<and> \<not> isinstance u t)"
    by blast
  from update_group_not_updated[OF run0] Cons.prems(2) have d1: "distinct nu1" by simp
  have once: "\<forall>i i' k. i < length groups \<and> i' < length groups \<and> k \<in> fst ` set kwargs
           \<and> scalar_key (snd (groups ! i)) k \<and> scalar_key (snd (groups ! i')) k \<longrightarrow> i = i'"
  proof (intro allI impI, elim conjE)
    fix i i' k
    assume "i < length groups" "i' < length groups" "k \<in> fst ` set kwargs"
      "scalar_key (snd (groups ! i)) k" "scalar_key (snd (groups ! i')) k"
    then have "Suc i = Suc i'"
      using Cons.prems(4)[rule_format, of "Suc i" "Suc i'" k] by simp
    then show "i = i'" by simp
  qed
  have ok1: "\<forall>g grp k v old. (g, grp) \<in> set groups \<and> (k, v) \<in> set kwargs
           \<and> map_of grp k = Some (Scalar old) \<longrightarrow>
           k \<in> set nu1 \<and> (\<exists>c. cast ops (type_of old) v = Inr c)"
  proof (intro allI impI, elim conjE)
    fix g grp k v old
    assume mem: "(g, grp) \<in> set groups" and kv: "(k, v) \<in> set kwargs"
      and sc: "map_of grp k = Some (Scalar old)"
    from mem have mem': "(g, grp) \<in> set (p # groups)" by simp
    from Cons.prems(3)[rule_format, of g grp k v old] mem' kv sc
    have 1: "k \<in> set nu" and 2: "\<exists>c. cast ops (type_of old) v = Inr c"
      by blast+
    from mem obtain n where n: "n < length groups" "groups ! n = (g, grp)"
      by (auto simp: in_set_conv_nth)
    have kin: "k \<in> fst ` set kwargs" using kv by force
    have "\<not> scalar_key grp0 k"
    proof
      assume "scalar_key grp0 k"
      then have "(0::nat) = Suc n"
        using Cons.prems(4)[rule_format, of 0 "Suc n" k] n kin sc p
        by (simp add: scalar_key_iff)
      then show False by simp
    qed
    with 1 nu1 have "k \<in> set nu1" by simp
    with 2 show "k \<in> set nu1 \<and> (\<exists>c. cast ops (type_of old) v = Inr c)" by simp
  qed
  from Cons.IH[OF Cons.prems(1) d1 ok1 once, of ms1] obtain groups' nu' ms' where
    run: "update_groups ops kwargs groups nu1 ms1 = (None, groups', nu', ms')" and
    len: "length groups' = length groups" and
    vals: "\<forall>i k v old. i < length groups \<and> (k, v) \<in> set kwargs
           \<and> map_of (snd (groups ! i)) k = Some (Scalar old) \<longrightarrow>
          (\<exists>c. cast ops (type_of old) v = Inr c \<and> map_of (snd (groups' ! i)) k = Some (Scalar c))" and
    msgs: "\<forall>k u t. Warn_type_cast k u t \<in> set ms' \<longleftrightarrow>
          Warn_type_cast k u t \<in> set ms1
          \<or> (\<exists>i. i < length groups \<and> (\<exists>old. (k, u) \<in> set kwargs
                \<and> map_of (snd (groups ! i)) k = Some (Scalar old)
                \<and> t = type_of old \<and> \<not> isinstance u t))"
    by blast
  have total: "update_groups ops kwargs (p # groups) nu ms = (None, (g0, grp0') # groups', nu', ms')"
    by (simp add: p run0 run)
  have a: "length ((g0, grp0') # groups') = length (p # groups)"
    using len by simp
  have b: "\<forall>i k v old. i < length (p # groups) \<and> (k, v) \<in> set kwargs
           \<and> map_of (snd ((p # groups) ! i)) k = Some (Scalar old) \<longrightarrow>
          (\<exists>c. cast ops (type_of old) v = Inr c
             \<and> map_of (snd (((g0, grp0') # groups') ! i)) k = Some (Scalar c))"
  proof (intro allI impI, elim conjE)
    fix i k v old
    assume i: "i < length (p # groups)" and kv: "(k, v) \<in> set kwargs"
      and sc: "map_of (snd ((p # groups) ! i)) k = Some (Scalar old)"
    show "\<exists>c. cast ops (type_of old) v = Inr c
             \<and> map_of (snd (((g0, grp0') # groups') ! i)) k = Some (Scalar c)"
    proof (cases i)
      case 0
      with sc p vals0 kv show ?thesis by simp
    next
      case (Suc n)
      with i sc vals kv show ?thesis by simp
    qed
  qed
  have c: "\<forall>k u t. Warn_type_cast k u t \<in> set ms' \<longleftrightarrow>
          Warn_type_cast k u t \<in> set ms
          \<or> (\<exists>i. i < length (p # groups) \<and> (\<exists>old. (k, u) \<in> set kwargs
                \<and> map_of (snd ((p # groups) ! i)) k = Some (Scalar old)
                \<and> t = type_of old \<and> \<not> isinstance u t))"
    unfolding ex_nth_Cons[where P = "\<lambda>i q. \<exists>old. (k, u) \<in> set kwargs
                \<and> map_of (snd q) k = Some (Scalar old)
                \<and> t = type_of old \<and> \<not> isinstance u t" for k u t]
    using msgs msgs0 p by auto
  from total a b c show ?case by blast
qed

lemma cast_real_float_ops: "cast real_float_ops t u \<noteq> Inl e"
  by (cases t; cases u) (simp_all add: real_float_ops_def)

section \<open>The loop of the inference-only runner\<close>

lemma fold_unchanged: "fold (\<lambda>i w. w) xs w = w"
  by (induction xs) auto

lemma extract_results_frame:
  "extract_results model meta project_dir name save_results path w = (r, w') \<Longrightarrow>
   model_snapshots (open_append (files w') q) = model_snapshots (open_append (files w) q)
   \<and> stored_metadata (open_append (files w') q) = stored_metadata (open_append (files w) q)
   \<and> stored_data (open_append (files w') q) = stored_data (open_append (files w) q)"
  by (auto simp: extract_results_def save_hdf5_results_def open_append_def emit_def
        split: sum.splits option.splits if_splits)

lemma apply_loop_result:
  assumes "0 \<le> k"
    and "\<forall>i. 0 \<le> i \<and> i < k \<longrightarrow> clean_step env data opts i (s (i - 1)) (s i)"
    and "(k = max 0 num_iters \<and> msgs = [])
       \<or> (k < num_iters \<and> wrapped_resample env k data (s (k - 1)) opts = (Inl StopResampling, msgs))"
  shows "resample_loop env data opts (\<lambda>iteration model' w'. w') [0..num_iters - 1] (s (0 - 1)) w
     = (Inr (s (k - 1)), emit msgs w)"
  using assms(3)
proof (elim disjE conjE)
  assume k: "k = max 0 num_iters" and m: "msgs = []"
  show ?thesis
  proof (cases "0 < num_iters")
    case True
    with k have kn: "k = num_iters" by simp
    from resample_loop_prefix[OF assms(2) assms(1), of "\<lambda>iteration model' w'. w'" "[]" w]
    show ?thesis by (simp add: kn m fold_unchanged)
  next
    case False
    with k have "k = 0" "[0..num_iters - 1] = []" by simp_all
    then show ?thesis by (simp add: m)
  qed
next
  assume k: "k < num_iters"
    and stop: "wrapped_resample env k data (s (k - 1)) opts = (Inl StopResampling, msgs)"
  have split: "[0..num_iters - 1] = [0..k - 1] @ k # [k + 1..num_iters - 1]"
    using assms(1) k by (intro upto_split3) simp_all
  show ?thesis
    unfolding split
    by (subst resample_loop_prefix[OF assms(2) assms(1)]) (simp add: stop fold_unchanged)
qed

lemma wrapped_resample_cong:
  "check_for_nans env' = check_for_nans env \<Longrightarrow>
   resample_model env' i data m opts = resample_model env i data m opts \<Longrightarrow>
   wrapped_resample env' i data m opts = wrapped_resample env i data m opts"
  by (auto simp: wrapped_resample_def split: sum.splits)

lemma resample_loop_cong:
  "check_for_nans env' = check_for_nans env \<Longrightarrow>
   \<forall>i m. resample_model env' i data m opts = resample_model env i data m opts \<Longrightarrow>
   resample_loop env' data opts step iterations model w
     = resample_loop env data opts step iterations model w"
proof (induction iterations arbitrary: model w)
  case Nil
  then show ?case by simp
next
  case (Cons i iterations)
  have "wrapped_resample env' i data model opts = wrapped_resample env i data model opts"
    using Cons.prems by (intro wrapped_resample_cong) simp_all
  then show ?case
    using Cons.IH[OF Cons.prems] by (simp split: prod.splits sum.splits)
qed

lemma apply_model_cong:
  assumes "check_for_nans env' = check_for_nans env"
    and "default_backend env' = default_backend env"
    and "\<forall>i d m opts. opt_states_only opts = Some True \<longrightarrow>
           resample_model env' i d m opts = resample_model env i d m opts"
  shows "apply_model env' init_model model data meta project_dir name num_iters ar_only
        save_results verbose results_path parallel_message_passing w
      = apply_model env init_model model data meta project_dir name num_iters ar_only
        save_results verbose results_path parallel_message_passing w"
proof -
  have opts: "apply_resample_options env' ar_only verbose parallel_message_passing
      = apply_resample_options env ar_only verbose parallel_message_passing"
    by (simp add: apply_resample_options_def assms(2))
  have so: "opt_states_only (apply_resample_options env ar_only verbose parallel_message_passing)
      = Some True"
    by (simp add: apply_resample_options_def)
  have "\<forall>i m. resample_model env' i data m
        (apply_resample_options env ar_only verbose parallel_message_passing)
      = resample_model env i data m
        (apply_resample_options env ar_only verbose parallel_message_passing)"
    using assms(3) so by blast
  note L = resample_loop_cong[OF assms(1) this]
  show ?thesis
    unfolding apply_model_def opts assms(2) L by (rule refl)
qed

section \<open>The parallelism flag\<close>

text \<open>
  C5. \<^verbatim>\<open>_set_parallel_flag\<close> is a function of the requested flag and of the backend alone:
  \<^verbatim>\<open>'force'\<close> enables without a warning; an unset flag enables exactly when the backend
  is not \<^verbatim>\<open>'cpu'\<close>, without a warning; an explicit \<^verbatim>\<open>True\<close> on the \<^verbatim>\<open>'cpu'\<close>
  backend stays enabled and warns; and a warning is raised in no other case, so never
  under \<^verbatim>\<open>'force'\<close>.
\<close>

theorem set_parallel_flag_resolution:
  "set_parallel_flag backend Force = (True, [])
   \<and> set_parallel_flag backend Unset = (backend \<noteq> ''cpu'', [])
   \<and> set_parallel_flag ''cpu'' (Explicit True) = (True, [Warn_parallel_cpu])
   \<and> (snd (set_parallel_flag backend flag) \<noteq> []) = (flag = Explicit True \<and> backend = ''cpu'')"
  by (cases flag) (auto simp: set_parallel_flag_def)

section \<open>The checkpoint schedule\<close>

lemma upto_0_20: "{i::int. 0 < i \<and> i \<le> 20 \<and> (i mod 5 = 0 \<or> i = 20)} = {5, 10, 15, 20}"
  by (auto; presburger)

text \<open>
  C1. A run of \<^verbatim>\<open>fit_model\<close> with \<^verbatim>\<open>save_every_n_iters > 0\<close> in which every resampling
  step from \<^verbatim>\<open>start_iter\<close> to \<^verbatim>\<open>num_iters\<close> is clean (the run is not stopped early; \<open>s i\<close>
  is the model adopted at iteration \<open>i\<close>) writes a snapshot under each iteration
  \<open>i > start_iter\<close> of the run with \<open>i mod save_every_n_iters = 0\<close> or \<open>i = num_iters\<close>, and
  under no other iteration of the loop. When no artifact existed, the artifact is created
  with the initial model under \<^verbatim>\<open>start_iter\<close> together with the metadata and the data, so
  that its keys are \<^verbatim>\<open>start_iter\<close> and the scheduled iterations; when one existed, its
  other snapshots, its metadata and its data stay as they were.
\<close>

theorem fit_model_snapshot_schedule:
  fixes w :: "('m, 'd, 'a) world" and metadata :: metadata and name :: "string option"
    and generate_progress_plots :: bool and project_dir :: string
  assumes "0 < save_every_n_iters"
    and "s (start_iter - 1) = device_put_as_scalar env model"
    and "\<forall>i. start_iter \<le> i \<and> i \<le> num_iters \<longrightarrow>
       clean_step env data (fit_resample_options env ar_only verbose parallel_message_passing)
         i (s (i - 1)) (s i)"
  defines "W \<equiv> snd (fit_model env model data metadata (Some project_dir) name num_iters
       start_iter verbose ar_only save_every_n_iters generate_progress_plots
       parallel_message_passing w)"
    and "P \<equiv> [project_dir, run_name env name, ''checkpoint.h5'']"
    and "S \<equiv> {i. start_iter < i \<and> i \<le> num_iters
       \<and> (i mod save_every_n_iters = 0 \<or> i = num_iters)}"
  shows "(\<forall>i\<in>S. snapshots_of W P i = Some (s i))
    \<and> (files w P = None \<longrightarrow>
         dom (snapshots_of W P) = insert start_iter S
         \<and> snapshots_of W P start_iter = Some model
         \<and> stored_metadata (open_append (files W) P) = Some metadata
         \<and> stored_data (open_append (files W) P) = Some data)
    \<and> (files w P \<noteq> None \<longrightarrow>
         dom (snapshots_of W P) = dom (snapshots_of w P) \<union> S
         \<and> (\<forall>i. i \<notin> S \<longrightarrow> snapshots_of W P i = snapshots_of w P i)
         \<and> stored_metadata (open_append (files W) P) = stored_metadata (open_append (files w) P)
         \<and> stored_data (open_append (files W) P) = stored_data (open_append (files w) P))"
proof -
  have pd: "0 < save_every_n_iters \<longrightarrow> Some project_dir = Some project_dir" by simp
  have view: "open_append (files W) P =
        (if files w P = None
         then \<lparr>model_snapshots = [start_iter \<mapsto> model], stored_metadata = Some metadata,
               stored_data = Some data, recordings = Map.empty\<rparr>
         else open_append (files w) P)
        \<lparr>model_snapshots := (\<lambda>i. if i \<in> S then Some (s i)
             else if files w P = None then [start_iter \<mapsto> model] i else snapshots_of w P i)\<rparr>"
  proof -
    have f: "(\<lambda>i. if start_iter \<le> i \<and> i \<le> num_iters \<and> start_iter < i
                 \<and> (i mod save_every_n_iters = 0 \<or> i = num_iters)
             then Some (s i) else X i) = (\<lambda>i. if i \<in> S then Some (s i) else X i)" for X
      by (intro ext) (auto simp: S_def)
    show ?thesis
      unfolding W_def fit_model_completed(2)[OF pd assms(2,3)] f
      using assms(1) by (simp add: P_def)
  qed
  have snaps: "snapshots_of W P = (\<lambda>i. if i \<in> S then Some (s i)
             else if files w P = None then [start_iter \<mapsto> model] i else snapshots_of w P i)"
    unfolding snapshots_of_def[of W] view by simp
  have notin: "start_iter \<notin> S" by (simp add: S_def)
  have a: "\<forall>i\<in>S. snapshots_of W P i = Some (s i)"
    by (simp add: snaps)
  have b: "dom (snapshots_of W P) = insert start_iter S"
    "snapshots_of W P start_iter = Some model"
    "stored_metadata (open_append (files W) P) = Some metadata"
    "stored_data (open_append (files W) P) = Some data" if "files w P = None"
    using that notin by (auto simp: snaps view dom_def split: if_splits)
  have c: "dom (snapshots_of W P) = dom (snapshots_of w P) \<union> S"
    "\<forall>i. i \<notin> S \<longrightarrow> snapshots_of W P i = snapshots_of w P i"
    "stored_metadata (open_append (files W) P) = stored_metadata (open_append (files w) P)"
    "stored_data (open_append (files W) P) = stored_data (open_append (files w) P)"
    if "files w P \<noteq> None"
    using that by (auto simp: snaps view dom_def split: if_splits)
  from a b c show ?thesis by blast
qed

text \<open>
  With \<^verbatim>\<open>num_iters=20, start_iter=0, save_every_n_iters=5\<close> and no artifact before the run,
  the snapshots are at exactly the iterations 0, 5, 10, 15 and 20.
\<close>

theorem fit_model_snapshot_schedule_witness:
  "dom (snapshots_of
      (snd (fit_model (counting_env None None) 0 () ([], []) (Some ''proj'') (Some ''run'')
         20 0 False False 5 True Unset (no_files :: (int, unit, unit) world)))
      [''proj'', ''run'', ''checkpoint.h5''])
   = {0, 5, 10, 15, 20}"
proof -
  let ?env = "counting_env None None"
  let ?s = "\<lambda>i::int. i + 1"
  have n: "(0::int) < 5" by simp
  have s0: "?s (0 - 1) = device_put_as_scalar ?env 0"
    by (simp add: counting_env_def)
  have clean: "\<forall>i. 0 \<le> i \<and> i \<le> 20 \<longrightarrow>
       clean_step ?env () (fit_resample_options ?env False False Unset) i (?s (i - 1)) (?s i)"
    by (simp add: clean_step_def counting_env_def)
  note T = fit_model_snapshot_schedule[where s = ?s and metadata = "([], [])"
      and name = "Some ''run''" and generate_progress_plots = True and project_dir = "''proj''"
      and w = "no_files :: (int, unit, unit) world", OF n s0 clean]
  have "files (no_files :: (int, unit, unit) world) [''proj'', ''run'', ''checkpoint.h5''] = None"
    by (simp add: no_files_def)
  with T show ?thesis
    by (simp add: run_name_def upto_0_20)
qed

section \<open>Divergence\<close>

text \<open>
  C2 fails as stated. The claim lets the divergence fall on the first iteration, and then
  the key of the diverged iteration is \<^verbatim>\<open>start_iter\<close>, under which the artifact was created
  with the initial model: here the first resampled model (iteration 0) holds a non-finite
  value, the run returns the initial model, and the store holds a snapshot under key 0.
\<close>

theorem fit_model_snapshot_under_diverged_key:
  "resample_model (counting_env (Some 1) None) 0 () 0
       (fit_resample_options (counting_env (Some 1) None) False False Unset) = Inr 1
   \<and> fst (check_for_nans (counting_env (Some 1) None) 1)
   \<and> fst (fit_model (counting_env (Some 1) None) 0 () ([], []) (Some ''proj'') (Some ''run'')
         20 0 False False 5 True Unset (no_files :: (int, unit, unit) world))
     = Inr (0, ''run'')
   \<and> snapshots_of
        (snd (fit_model (counting_env (Some 1) None) 0 () ([], []) (Some ''proj'') (Some ''run'')
           20 0 False False 5 True Unset (no_files :: (int, unit, unit) world)))
        [''proj'', ''run'', ''checkpoint.h5''] 0 = Some 0"
proof -
  let ?env = "counting_env (Some 1) None"
  let ?w = "no_files :: (int, unit, unit) world"
  let ?s = "\<lambda>i::int. i + 1"
  have stop: "wrapped_resample ?env 0 () (?s (0 - 1))
      (fit_resample_options ?env False False Unset) = (Inl StopResampling, [Warn_nans [''x'']])"
    by (simp add: wrapped_resample_def counting_env_def)
  have pd: "(0::int) < 5 \<longrightarrow> Some ''proj'' = Some ''proj''" by simp
  have k: "(0::int) \<le> 0" "(0::int) \<le> 20" by simp_all
  have s0: "?s (0 - 1) = device_put_as_scalar ?env 0"
    by (simp add: counting_env_def)
  have clean: "\<forall>i. 0 \<le> i \<and> i < 0 \<longrightarrow>
       clean_step ?env () (fit_resample_options ?env False False Unset) i (?s (i - 1)) (?s i)"
    by auto
  note run = fit_model_stopped[where s = ?s and k = 0 and metadata = "([], [])"
      and name = "Some ''run''" and gpp = True and w = ?w, OF pd k s0 clean stop]
  have a: "fst (fit_model ?env 0 () ([], []) (Some ''proj'') (Some ''run'')
         20 0 False False 5 True Unset ?w) = Inr (0, ''run'')"
    using run(1) by (simp add: run_name_def)
  have b: "snapshots_of (snd (fit_model ?env 0 () ([], []) (Some ''proj'') (Some ''run'')
         20 0 False False 5 True Unset ?w)) [''proj'', ''run'', ''checkpoint.h5''] 0 = Some 0"
    unfolding snapshots_after_stop[OF run(2) k(2)]
    by (simp add: run_name_def)
  have c: "resample_model ?env 0 () 0 (fit_resample_options ?env False False Unset) = Inr 1"
    "fst (check_for_nans ?env 1)"
    by (simp_all add: counting_env_def)
  from a b c show ?thesis by simp
qed


text \<open>
  C2, amended. When the resampled model first holds a non-finite value at iteration \<open>k\<close>
  (\<open>start_iter \<le> k \<le> num_iters\<close>, every earlier step clean, \<open>s i\<close> the model adopted at
  iteration \<open>i\<close> and \<open>s (start_iter - 1)\<close> the initial model as placed on the device),
  \<^verbatim>\<open>fit_model\<close> returns \<open>s (k - 1)\<close> with the name of the run, the warning about the
  non-finite values is the last thing it emits, and the loop writes nothing under key \<open>k\<close>
  or any later key: in every artifact such a key holds what it held before the call, but
  for \<^verbatim>\<open>start_iter\<close> in a checkpoint artifact that the call created, which holds the initial
  model.
\<close>

theorem fit_model_stops_on_nans:
  fixes w :: "('m, 'd, 'a) world" and metadata :: metadata and name :: "string option"
    and generate_progress_plots :: bool and pd :: string
  assumes "0 < save_every_n_iters \<longrightarrow> project_dir = Some pd"
    and "start_iter \<le> k" and "k \<le> num_iters"
    and "s (start_iter - 1) = device_put_as_scalar env model"
    and "\<forall>i. start_iter \<le> i \<and> i < k \<longrightarrow>
       clean_step env data (fit_resample_options env ar_only verbose parallel_message_passing)
         i (s (i - 1)) (s i)"
    and "resample_model env k data (s (k - 1))
       (fit_resample_options env ar_only verbose parallel_message_passing) = Inr bad"
    and "fst (check_for_nans env bad)"
  defines "W \<equiv> fit_model env model data metadata project_dir name num_iters
       start_iter verbose ar_only save_every_n_iters generate_progress_plots
       parallel_message_passing w"
    and "P \<equiv> [pd, run_name env name, ''checkpoint.h5'']"
  shows "fst W = Inr (s (k - 1), run_name env name)
    \<and> last (emitted (snd W)) = Warn_nans (snd (check_for_nans env bad))
    \<and> (\<forall>q i. k \<le> i \<longrightarrow> snapshots_of (snd W) q i =
          (if 0 < save_every_n_iters \<and> q = P \<and> files w q = None \<and> i = start_iter
           then Some model else snapshots_of w q i))"
proof -
  note stop = wrapped_resample_nans[OF assms(6,7)]
  note run = fit_model_stopped[OF assms(1-5) stop, where metadata = metadata and name = name
      and gpp = generate_progress_plots and w = w, folded W_def P_def]
  have a: "fst W = Inr (s (k - 1), run_name env name)"
    by (rule run(1))
  from run(3) obtain pre where "emitted (snd W) = pre @ [Warn_nans (snd (check_for_nans env bad))]"
    by blast
  then have b: "last (emitted (snd W)) = Warn_nans (snd (check_for_nans env bad))"
    by simp
  have c: "snapshots_of (snd W) q i =
          (if 0 < save_every_n_iters \<and> q = P \<and> files w q = None \<and> i = start_iter
           then Some model else snapshots_of w q i)" if "k \<le> i" for q i
    unfolding snapshots_after_stop[OF run(2) assms(3)] using that by simp
  from a b c show ?thesis by blast
qed


text \<open>
  Divergence at iteration 7 of a 20-iteration run that saves every iteration: the run
  returns the model adopted at iteration 6, and there is no snapshot under key 7.
\<close>

theorem fit_model_stops_on_nans_witness:
  "fst (fit_model (counting_env (Some 8) None) 0 () ([], []) (Some ''proj'') (Some ''run'')
         20 0 False False 1 True Unset (no_files :: (int, unit, unit) world))
     = Inr (7, ''run'')
   \<and> snapshots_of
        (snd (fit_model (counting_env (Some 8) None) 0 () ([], []) (Some ''proj'') (Some ''run'')
           20 0 False False 1 True Unset (no_files :: (int, unit, unit) world)))
        [''proj'', ''run'', ''checkpoint.h5''] 7 = None"
proof -
  let ?env = "counting_env (Some 8) None"
  let ?s = "\<lambda>i::int. i + 1"
  have pd: "(0::int) < 1 \<longrightarrow> Some ''proj'' = Some ''proj''" by simp
  have k: "(0::int) \<le> 7" "(7::int) \<le> 20" by simp_all
  have s0: "?s (0 - 1) = device_put_as_scalar ?env 0"
    by (simp add: counting_env_def)
  have clean: "\<forall>i. 0 \<le> i \<and> i < 7 \<longrightarrow>
       clean_step ?env () (fit_resample_options ?env False False Unset) i (?s (i - 1)) (?s i)"
    by (simp add: clean_step_def counting_env_def)
  have bad: "resample_model ?env 7 () (?s (7 - 1)) (fit_resample_options ?env False False Unset)
      = Inr 8"
    by (simp add: counting_env_def)
  have nans: "fst (check_for_nans ?env 8)"
    by (simp add: counting_env_def)
  note T = fit_model_stops_on_nans[where s = ?s and k = 7 and metadata = "([], [])"
      and name = "Some ''run''" and generate_progress_plots = True
      and w = "no_files :: (int, unit, unit) world", OF pd k s0 clean bad nans]
  from T have a: "fst (fit_model ?env 0 () ([], []) (Some ''proj'') (Some ''run'')
         20 0 False False 1 True Unset (no_files :: (int, unit, unit) world)) = Inr (7, ''run'')"
    by (simp add: run_name_def)
  from T have "snapshots_of
        (snd (fit_model ?env 0 () ([], []) (Some ''proj'') (Some ''run'')
           20 0 False False 1 True Unset (no_files :: (int, unit, unit) world)))
        [''proj'', ''run'', ''checkpoint.h5''] 7 =
      (if 0 < (1::int) \<and> [''proj'', ''run'', ''checkpoint.h5''] = [''proj'', run_name ?env (Some ''run''), ''checkpoint.h5'']
          \<and> files (no_files :: (int, unit, unit) world) [''proj'', ''run'', ''checkpoint.h5''] = None \<and> (7::int) = 0
       then Some 0 else snapshots_of (no_files :: (int, unit, unit) world) [''proj'', ''run'', ''checkpoint.h5''] 7)"
    by blast
  then have b: "snapshots_of
        (snd (fit_model ?env 0 () ([], []) (Some ''proj'') (Some ''run'')
           20 0 False False 1 True Unset (no_files :: (int, unit, unit) world)))
        [''proj'', ''run'', ''checkpoint.h5''] 7 = None"
    by (simp add: run_name_def)
  from a b show ?thesis by simp
qed


section \<open>User interruption\<close>

text \<open>
  C4. When the call of \<^verbatim>\<open>resample_model\<close> at iteration \<open>k\<close> is interrupted by the user
  (every earlier step clean), \<^verbatim>\<open>fit_model\<close> returns normally, with the last adopted model
  \<open>s (k - 1)\<close> and the name of the run; the notice of the interruption is the last thing it
  emits; and nothing is written for iteration \<open>k\<close>: every artifact holds what it held
  before the loop (with the initial model under \<^verbatim>\<open>start_iter\<close> if the call created the
  checkpoint artifact) and the snapshots of the scheduled iterations before \<open>k\<close>, each the
  model adopted at its iteration.
\<close>

theorem fit_model_user_interruption:
  fixes w :: "('m, 'd, 'a) world" and metadata :: metadata and name :: "string option"
    and generate_progress_plots :: bool and pd :: string
  assumes "0 < save_every_n_iters \<longrightarrow> project_dir = Some pd"
    and "start_iter \<le> k" and "k \<le> num_iters"
    and "s (start_iter - 1) = device_put_as_scalar env model"
    and "\<forall>i. start_iter \<le> i \<and> i < k \<longrightarrow>
       clean_step env data (fit_resample_options env ar_only verbose parallel_message_passing)
         i (s (i - 1)) (s i)"
    and "resample_model env k data (s (k - 1))
       (fit_resample_options env ar_only verbose parallel_message_passing) = Inl KeyboardInterrupt"
  defines "W \<equiv> fit_model env model data metadata project_dir name num_iters
       start_iter verbose ar_only save_every_n_iters generate_progress_plots
       parallel_message_passing w"
    and "P \<equiv> [pd, run_name env name, ''checkpoint.h5'']"
  shows "fst W = Inr (s (k - 1), run_name env name)
    \<and> last (emitted (snd W)) = Print_user_interruption
    \<and> (\<forall>q. snapshots_of (snd W) q =
          (\<lambda>i. if 0 < save_every_n_iters \<and> q = P \<and> start_iter < i \<and> i < k
                   \<and> i mod save_every_n_iters = 0 then Some (s i)
                else if 0 < save_every_n_iters \<and> q = P \<and> files w q = None \<and> i = start_iter
                then Some model
                else snapshots_of w q i))"
proof -
  note stop = wrapped_resample_interrupt[OF assms(6)]
  note run = fit_model_stopped[OF assms(1-5) stop, where metadata = metadata and name = name
      and gpp = generate_progress_plots and w = w, folded W_def P_def]
  have a: "fst W = Inr (s (k - 1), run_name env name)"
    by (rule run(1))
  from run(3) obtain pre where "emitted (snd W) = pre @ [Print_user_interruption]"
    by blast
  then have b: "last (emitted (snd W)) = Print_user_interruption"
    by simp
  have c: "snapshots_of (snd W) q =
          (\<lambda>i. if 0 < save_every_n_iters \<and> q = P \<and> start_iter < i \<and> i < k
                   \<and> i mod save_every_n_iters = 0 then Some (s i)
                else if 0 < save_every_n_iters \<and> q = P \<and> files w q = None \<and> i = start_iter
                then Some model
                else snapshots_of w q i)" for q
    by (rule snapshots_after_stop[OF run(2) assms(3)])
  from a b c show ?thesis by blast
qed


text \<open>
  An interruption at iteration 3 of a run that saves every iteration returns the model
  adopted at iteration 2 and leaves the snapshots 0, 1 and 2.
\<close>

theorem fit_model_user_interruption_witness:
  "fst (fit_model (counting_env None (Some 3)) 0 () ([], []) (Some ''proj'') (Some ''run'')
         20 0 False False 1 True Unset (no_files :: (int, unit, unit) world))
     = Inr (3, ''run'')
   \<and> dom (snapshots_of
        (snd (fit_model (counting_env None (Some 3)) 0 () ([], []) (Some ''proj'') (Some ''run'')
           20 0 False False 1 True Unset (no_files :: (int, unit, unit) world)))
        [''proj'', ''run'', ''checkpoint.h5'']) = {0, 1, 2}"
proof -
  let ?env = "counting_env None (Some 3)"
  let ?w = "no_files :: (int, unit, unit) world"
  let ?s = "\<lambda>i::int. i + 1"
  have pd: "(0::int) < 1 \<longrightarrow> Some ''proj'' = Some ''proj''" by simp
  have k: "(0::int) \<le> 3" "(3::int) \<le> 20" by simp_all
  have s0: "?s (0 - 1) = device_put_as_scalar ?env 0"
    by (simp add: counting_env_def)
  have clean: "\<forall>i. 0 \<le> i \<and> i < 3 \<longrightarrow>
       clean_step ?env () (fit_resample_options ?env False False Unset) i (?s (i - 1)) (?s i)"
    by (simp add: clean_step_def counting_env_def)
  have stop: "resample_model ?env 3 () (?s (3 - 1)) (fit_resample_options ?env False False Unset)
      = Inl KeyboardInterrupt"
    by (simp add: counting_env_def)
  note T = fit_model_user_interruption[where s = ?s and k = 3 and metadata = "([], [])"
      and name = "Some ''run''" and generate_progress_plots = True and w = ?w,
      OF pd k s0 clean stop]
  have d: "dom (\<lambda>i::int. if 0 < i \<and> i < 3 then Some (i + 1) else if i = 0 then Some (0::int) else None)
      = {0, 1, 2}"
    by (auto simp: dom_def split: if_splits)
  from T have a: "fst (fit_model ?env 0 () ([], []) (Some ''proj'') (Some ''run'') 20 0 False False 1
      True Unset ?w) = Inr (3, ''run'')"
    by (simp add: run_name_def)
  from T have "\<forall>q. snapshots_of (snd (fit_model ?env 0 () ([], []) (Some ''proj'') (Some ''run'') 20 0
      False False 1 True Unset ?w)) q =
      (\<lambda>i. if q = [''proj'', ''run'', ''checkpoint.h5''] \<and> 0 < i \<and> i < 3 then Some (i + 1)
           else if q = [''proj'', ''run'', ''checkpoint.h5''] \<and> i = 0 then Some 0
           else None)"
    by (simp add: run_name_def cong: if_cong)
  then have "snapshots_of (snd (fit_model ?env 0 () ([], []) (Some ''proj'') (Some ''run'') 20 0
      False False 1 True Unset ?w)) [''proj'', ''run'', ''checkpoint.h5''] =
      (\<lambda>i. if 0 < i \<and> i < 3 then Some (i + 1) else if i = 0 then Some 0 else None)"
    by (simp cong: if_cong)
  with a d show ?thesis by simp
qed

section \<open>Updating hyperparameters\<close>

text \<open>
  C7 fails as stated. The advisory depends on \<^verbatim>\<open>isinstance\<close>, and a \<^verbatim>\<open>bool\<close> is an
  instance of \<^verbatim>\<open>int\<close>: updating the integral \<^verbatim>\<open>nlags = 3\<close> with \<^verbatim>\<open>True\<close> stores the
  integer 1 and emits no advisory, although the type of the value given differs from the
  type of the current value.
\<close>

theorem update_hypparams_bool_for_int:
  "type_of (PyBool True :: real scalar) \<noteq> type_of (PyInt 3 :: real scalar)
   \<and> map_of (snd (example_hypparams ! 1)) ''nlags'' = Some (Scalar (PyInt 3))
   \<and> update_hypparams real_float_ops example_model [(''nlags'', PyBool True)]
     = (None,
        example_model\<lparr>hypparams := Some
          [(''trans_hypparams'',
              [(''kappa'', Scalar (PyFloat 10)), (''num_states'', Scalar (PyInt 100))]),
           (''ar_hypparams'',
              [(''nlags'', Scalar (PyInt 1)), (''num_states'', Scalar (PyInt 100)),
               (''S_0'', NonScalar [1, 0, 0, 1])])]\<rparr>,
        [])"
  by (simp add: update_hypparams_def example_model_def example_hypparams_def isinstance_def
        list_remove_def)

text \<open>
  C7, amended. Let the keys of the update be distinct, none of them a scalar of two groups,
  and let no coercion of a new value to the type of the scalar it replaces fail. Then
  \<^verbatim>\<open>update_hypparams\<close> returns; a key \<open>k\<close> that is a scalar \<open>old\<close> of a group holds
  afterwards the new value coerced to the type of \<open>old\<close>; and an advisory about a cast is
  emitted for \<open>k\<close> exactly when the new value is not an instance of the type of \<open>old\<close>
  (a \<^verbatim>\<open>bool\<close> is an instance of \<^verbatim>\<open>int\<close>), and then it names the value and that type.
\<close>

theorem update_hypparams_coerces:
  assumes "hypparams model_dict = Some groups"
    and "distinct (map fst kwargs)"
    and "(k, v) \<in> set kwargs"
    and "j < length groups"
    and "map_of (snd (groups ! j)) k = Some (Scalar old)"
    and "\<forall>i i' k'. i < length groups \<and> i' < length groups \<and> k' \<in> fst ` set kwargs
           \<and> scalar_key (snd (groups ! i)) k' \<and> scalar_key (snd (groups ! i')) k' \<longrightarrow> i = i'"
    and "\<forall>g grp k' v' old'. (g, grp) \<in> set groups \<and> (k', v') \<in> set kwargs
           \<and> map_of grp k' = Some (Scalar old') \<longrightarrow> (\<exists>c. cast ops (type_of old') v' = Inr c)"
  shows "\<exists>groups' msgs c.
      update_hypparams ops model_dict kwargs
        = (None, model_dict\<lparr>hypparams := Some groups'\<rparr>, msgs)
    \<and> length groups' = length groups
    \<and> cast ops (type_of old) v = Inr c
    \<and> type_of c = type_of old
    \<and> map_of (snd (groups' ! j)) k = Some (Scalar c)
    \<and> ((\<exists>u t. Warn_type_cast k u t \<in> set msgs) = (\<not> isinstance v (type_of old)))
    \<and> (\<not> isinstance v (type_of old) \<longrightarrow> Warn_type_cast k v (type_of old) \<in> set msgs)"
proof -
  have ok: "\<forall>g grp k v old. (g, grp) \<in> set groups \<and> (k, v) \<in> set kwargs
           \<and> map_of grp k = Some (Scalar old) \<longrightarrow>
           k \<in> set (map fst kwargs) \<and> (\<exists>c. cast ops (type_of old) v = Inr c)"
    using assms(7) by force
  from update_groups_runs[OF assms(2) assms(2) ok assms(6), of "[]"] obtain groups' nu' ms' where
    run: "update_groups ops kwargs groups (map fst kwargs) [] = (None, groups', nu', ms')" and
    len: "length groups' = length groups" and
    vals: "\<forall>i k v old. i < length groups \<and> (k, v) \<in> set kwargs
           \<and> map_of (snd (groups ! i)) k = Some (Scalar old) \<longrightarrow>
          (\<exists>c. cast ops (type_of old) v = Inr c \<and> map_of (snd (groups' ! i)) k = Some (Scalar c))" and
    msgs: "\<forall>k u t. Warn_type_cast k u t \<in> set ms' \<longleftrightarrow>
          Warn_type_cast k u t \<in> set []
          \<or> (\<exists>i. i < length groups \<and> (\<exists>old. (k, u) \<in> set kwargs
                \<and> map_of (snd (groups ! i)) k = Some (Scalar old)
                \<and> t = type_of old \<and> \<not> isinstance u t))"
    by blast
  define out where "out = (if 0 < length nu' then ms' @ [Warn_not_found nu'] else ms')"
  have res: "update_hypparams ops model_dict kwargs
      = (None, model_dict\<lparr>hypparams := Some groups'\<rparr>, out)"
    by (simp add: update_hypparams_def assms(1) run out_def)
  from vals assms(3,4,5) obtain c where
    c: "cast ops (type_of old) v = Inr c" and
    new: "map_of (snd (groups' ! j)) k = Some (Scalar c)"
    by blast
  have mem: "Warn_type_cast k u t \<in> set out \<longleftrightarrow> Warn_type_cast k u t \<in> set ms'" for u t
    by (simp add: out_def)
  have only: "u = v \<and> t = type_of old \<and> \<not> isinstance v (type_of old)"
    if "Warn_type_cast k u t \<in> set ms'" for u t
  proof -
    from that msgs obtain i old' where i: "i < length groups" and ku: "(k, u) \<in> set kwargs"
      and sc: "map_of (snd (groups ! i)) k = Some (Scalar old')"
      and t: "t = type_of old'" and ni: "\<not> isinstance u t"
      by auto
    have uv: "u = v" using distinct_keys_value[OF assms(2,3) ku] .
    have kin: "k \<in> fst ` set kwargs" using assms(3) by force
    have "i = j"
      using assms(6)[rule_format, of i j k] i assms(4) kin sc assms(5)
      by (simp add: scalar_key_iff)
    with sc assms(5) have "old' = old" by simp
    with uv t ni show ?thesis by simp
  qed
  have there: "Warn_type_cast k v (type_of old) \<in> set ms'" if "\<not> isinstance v (type_of old)"
    using msgs that assms(3,4,5) by blast
  have iff: "(\<exists>u t. Warn_type_cast k u t \<in> set out) = (\<not> isinstance v (type_of old))"
    unfolding mem using only there by blast
  have imp: "\<not> isinstance v (type_of old) \<longrightarrow> Warn_type_cast k v (type_of old) \<in> set out"
    unfolding mem using there by blast
  from res len c cast_type[OF c] new iff imp show ?thesis by blast
qed

text \<open>
  Updating the floating \<^verbatim>\<open>kappa = 10.0\<close> with the integral 5 returns, stores the floating
  5.0 and emits the advisory about the cast.
\<close>

theorem update_hypparams_coerces_witness:
  "fst (update_hypparams real_float_ops example_model [(''kappa'', PyInt 5)]) = None
   \<and> map_of (snd (the (hypparams (fst (snd
        (update_hypparams real_float_ops example_model [(''kappa'', PyInt 5)])))) ! 0)) ''kappa''
     = Some (Scalar (PyFloat 5))
   \<and> Warn_type_cast ''kappa'' (PyInt 5) FloatT
       \<in> set (snd (snd (update_hypparams real_float_ops example_model [(''kappa'', PyInt 5)])))"
proof -
  have h1: "hypparams example_model = Some example_hypparams"
    by (simp add: example_model_def)
  have h2: "distinct (map fst [(''kappa'', PyInt 5 :: real scalar)])" by simp
  have h3: "(''kappa'', PyInt 5) \<in> set [(''kappa'', PyInt 5 :: real scalar)]" by simp
  have h4: "0 < length example_hypparams" by (simp add: example_hypparams_def)
  have h5: "map_of (snd (example_hypparams ! 0)) ''kappa'' = Some (Scalar (PyFloat 10))"
    by (simp add: example_hypparams_def)
  have h6: "\<forall>i i' k'. i < length example_hypparams \<and> i' < length example_hypparams
           \<and> k' \<in> fst ` set [(''kappa'', PyInt 5 :: real scalar)]
           \<and> scalar_key (snd (example_hypparams ! i)) k'
           \<and> scalar_key (snd (example_hypparams ! i')) k' \<longrightarrow> i = i'"
    by (auto simp: example_hypparams_def scalar_key_def less_Suc_eq)
  have h7: "\<forall>g grp k' v' old'. (g, grp) \<in> set example_hypparams
           \<and> (k', v') \<in> set [(''kappa'', PyInt 5 :: real scalar)]
           \<and> map_of grp k' = Some (Scalar old') \<longrightarrow>
           (\<exists>c. cast real_float_ops (type_of old') v' = Inr c)"
    using cast_real_float_ops by (metis sum.exhaust)
  from update_hypparams_coerces[OF h1 h2 h3 h4 h5 h6 h7] obtain groups' msgs c where
    res: "update_hypparams real_float_ops example_model [(''kappa'', PyInt 5)]
        = (None, example_model\<lparr>hypparams := Some groups'\<rparr>, msgs)" and
    c: "cast real_float_ops (type_of (PyFloat 10 :: real scalar)) (PyInt 5) = Inr c" and
    new: "map_of (snd (groups' ! 0)) ''kappa'' = Some (Scalar c)" and
    warn: "\<not> isinstance (PyInt 5 :: real scalar) (type_of (PyFloat 10 :: real scalar)) \<longrightarrow>
      Warn_type_cast ''kappa'' (PyInt 5) (type_of (PyFloat 10 :: real scalar)) \<in> set msgs"
    by blast
  from c have "c = PyFloat 5" by (simp add: real_float_ops_def)
  with res new warn show ?thesis
    by (simp add: isinstance_def)
qed

text \<open>
  C8. When the model has hyperparameters and the update names at least one key, and no key
  of the update is in any group, \<^verbatim>\<open>update_hypparams\<close> returns the model dictionary
  unchanged and emits exactly one advisory, which lists the keys of the update.
\<close>

theorem update_hypparams_unmatched:
  assumes "hypparams model_dict = Some groups"
    and "kwargs \<noteq> []"
    and "\<forall>(g, grp)\<in>set groups. \<forall>(k, v)\<in>set kwargs. map_of grp k = None"
  shows "update_hypparams ops model_dict kwargs
     = (None, model_dict, [Warn_not_found (map fst kwargs)])"
  using assms by (simp add: update_hypparams_def update_groups_absent)

text \<open>
  The single unmatched key \<^verbatim>\<open>foobar\<close>.
\<close>

theorem update_hypparams_unmatched_witness:
  "update_hypparams real_float_ops example_model [(''foobar'', PyInt 1)]
     = (None, example_model, [Warn_not_found [''foobar'']])"
  using update_hypparams_unmatched[of example_model example_hypparams
      "[(''foobar'', PyInt 1)]" real_float_ops]
  by (simp add: example_model_def example_hypparams_def)

text \<open>
  C9. Without the key \<^verbatim>\<open>hypparams\<close> in the model dictionary the assertion of line 369
  fails at once: the call raises \<^verbatim>\<open>AssertionError\<close>, the dictionary is as it was and
  nothing is emitted.
\<close>

theorem update_hypparams_missing_container:
  "hypparams model_dict = None \<Longrightarrow>
   update_hypparams ops model_dict kwargs = (Some AssertionError, model_dict, [])"
  by (simp add: update_hypparams_def)

text \<open>
  A model dictionary without hyperparameters.
\<close>

theorem update_hypparams_missing_container_witness:
  "update_hypparams real_float_ops bare_model [(''kappa'', PyInt 5)]
     = (Some AssertionError, bare_model, [])"
  using update_hypparams_missing_container[of bare_model real_float_ops "[(''kappa'', PyInt 5)]"]
  by (simp add: bare_model_def)

text \<open>
  C10. When a key of the update is a scalar of two groups, \<^verbatim>\<open>update_hypparams\<close> raises:
  at the second group, unless an exception came earlier, the key is no longer in
  \<^verbatim>\<open>not_updated\<close> and \<^verbatim>\<open>list.remove\<close> raises \<^verbatim>\<open>ValueError\<close>; when no coercion can
  fail, \<^verbatim>\<open>ValueError\<close> is the exception raised. So a call that returns has no key that
  is a scalar of two groups.
\<close>

theorem update_hypparams_key_in_two_groups:
  assumes "hypparams model_dict = Some groups"
    and "(k, v) \<in> set kwargs"
    and "i < j" and "j < length groups"
    and "map_of (snd (groups ! i)) k = Some (Scalar old1)"
    and "map_of (snd (groups ! j)) k = Some (Scalar old2)"
    and "distinct (map fst kwargs)"
  shows "fst (update_hypparams ops model_dict kwargs) \<noteq> None
    \<and> ((\<forall>t u e. cast ops t u \<noteq> Inl e) \<longrightarrow>
         fst (update_hypparams ops model_dict kwargs) = Some ValueError)"
proof -
  from assms(3,4) have i: "i < length groups" by simp
  have first: "groups = take i groups @ groups ! i # drop (Suc i) groups"
    using i by (rule id_take_nth_drop)
  let ?rest = "drop (Suc i) groups"
  have j': "j - Suc i < length ?rest" using assms(3,4) by simp
  have nth: "?rest ! (j - Suc i) = groups ! j" using assms(3,4) by simp
  have second: "?rest = take (j - Suc i) ?rest @ groups ! j # drop (Suc (j - Suc i)) ?rest"
    using id_take_nth_drop[OF j'] nth by simp
  have shape: "groups = take i groups @ (fst (groups ! i), snd (groups ! i))
      # take (j - Suc i) ?rest @ (fst (groups ! j), snd (groups ! j)) # drop (Suc (j - Suc i)) ?rest"
    using first second by simp
  have raised: "fst (update_groups ops kwargs groups (map fst kwargs) []) \<noteq> None"
    by (subst shape) (rule update_groups_raises_twice[OF assms(2) assms(7) assms(5) assms(6)])
  then obtain e groups' nu' ms' where
    run: "update_groups ops kwargs groups (map fst kwargs) [] = (Some e, groups', nu', ms')"
    by (cases "update_groups ops kwargs groups (map fst kwargs) []") auto
  have a: "fst (update_hypparams ops model_dict kwargs) = Some e"
    by (simp add: update_hypparams_def assms(1) run)
  from update_groups_exception[OF run] have "(\<forall>t u e. cast ops t u \<noteq> Inl e) \<longrightarrow> e = ValueError"
    by auto
  with a show ?thesis by simp
qed

text \<open>
  \<^verbatim>\<open>num_states\<close> is a scalar of both groups of the example.
\<close>

theorem update_hypparams_key_in_two_groups_witness:
  "fst (update_hypparams real_float_ops example_model [(''num_states'', PyInt 50)])
     = Some ValueError"
proof -
  have h1: "hypparams example_model = Some example_hypparams"
    by (simp add: example_model_def)
  have h2: "(''num_states'', PyInt 50) \<in> set [(''num_states'', PyInt 50 :: real scalar)]" by simp
  have h3: "(0::nat) < 1" by simp
  have h4: "1 < length example_hypparams" by (simp add: example_hypparams_def)
  have h5: "map_of (snd (example_hypparams ! 0)) ''num_states'' = Some (Scalar (PyInt 100))"
    by (simp add: example_hypparams_def)
  have h6: "map_of (snd (example_hypparams ! 1)) ''num_states'' = Some (Scalar (PyInt 100))"
    by (simp add: example_hypparams_def)
  have h7: "distinct (map fst [(''num_states'', PyInt 50 :: real scalar)])" by simp
  from update_hypparams_key_in_two_groups[OF h1 h2 h3 h4 h5 h6 h7, of real_float_ops]
  show ?thesis using cast_real_float_ops by blast
qed

section \<open>The lengths of the extracted arrays\<close>

text \<open>
  C3 is right about what the code documents (every array of a recording has the time
  length \<open>T\<close>, lines 192-195) and the code misses it. For bounds \<open>(10, 50)\<close> and
  \<^verbatim>\<open>nlags = 5\<close>, in rows long enough for the shifted bounds \<open>(10, 55)\<close>, the labels are
  trimmed to 45 frames, lose their first 5 and are padded by 5 again: the syllables have
  45 frames, while the latent state, the centroid and the heading have 40. In rows that
  end with the recording (50 frames, 45 of labels) the slice is clipped to 35 labels, and
  the syllables have 35 frames.
\<close>

theorem extract_results_syllable_longer:
  "shape1 (states_x lagged_states) - shape1 (states_z lagged_states) = 5
   \<and> (case fst (extract_results lagged_model ([''rec''], [(10, 50)]) None None False None
          (no_files :: (int, unit, int) world)) of
        Inl e \<Rightarrow> False
      | Inr results_dict \<Rightarrow>
          map (\<lambda>(k, r). (k, length (syllable r), length (latent_state r), length (centroid r),
                 length (heading r))) results_dict
          = [(''rec'', 45, 40, 40, 40)])
   \<and> shape1 (states_x tight_states) - shape1 (states_z tight_states) = 5
   \<and> (case fst (extract_results tight_model ([''rec''], [(10, 50)]) None None False None
          (no_files :: (int, unit, int) world)) of
        Inl e \<Rightarrow> False
      | Inr results_dict \<Rightarrow>
          map (\<lambda>(k, r). (k, length (syllable r), length (latent_state r), length (centroid r),
                 length (heading r))) results_dict
          = [(''rec'', 35, 40, 40, 40)])"
  by code_simp

section \<open>The inference-only runner\<close>

text \<open>
  C6. Let the model hold parameters and hyperparameters and let the results have a
  destination if they are to be saved. \<^verbatim>\<open>apply_model\<close> starts from the model that
  \<^verbatim>\<open>init_model\<close> makes of the new data and the given parameters and hyperparameters
  (\<open>s (- 1)\<close>), and calls the resampling with \<^verbatim>\<open>states_only=True\<close> at every iteration:
  what \<^verbatim>\<open>resample_model\<close> would do without that keyword has no effect on the call.
  When the steps before \<open>k\<close> are clean and the loop ends at \<open>k\<close>, by completion
  (\<open>k = num_iters\<close>) or by an early stop at iteration \<open>k\<close>, the call returns what
  \<^verbatim>\<open>extract_results\<close> returns for the last adopted model \<open>s (k - 1)\<close>; and no artifact has
  its snapshots, its metadata or its data changed: no checkpoint is written.
\<close>

theorem apply_model_states_only:
  fixes w :: "(('a, 'p, 'h) model_dict, 'd, 'a) world"
  assumes "params model = Some ps" and "hypparams model = Some hs"
    and "apply_results_path save_results results_path project_dir name = Inr rp"
    and "s (- 1) = init_model data ps hs verbose"
    and "0 \<le> k"
    and "\<forall>i. 0 \<le> i \<and> i < k \<longrightarrow>
       clean_step env data (apply_resample_options env ar_only verbose parallel_message_passing)
         i (s (i - 1)) (s i)"
    and "(k = max 0 num_iters \<and> msgs = [])
       \<or> (k < num_iters \<and> wrapped_resample env k data (s (k - 1))
            (apply_resample_options env ar_only verbose parallel_message_passing)
            = (Inl StopResampling, msgs))"
  shows "apply_model env init_model model data meta project_dir name num_iters ar_only
        save_results verbose results_path parallel_message_passing w
      = extract_results (s (k - 1)) meta project_dir name save_results rp
          (emit msgs (emit (snd (set_parallel_flag (default_backend env)
             parallel_message_passing)) w))
    \<and> opt_states_only (apply_resample_options env ar_only verbose parallel_message_passing)
      = Some True
    \<and> (\<forall>env'. check_for_nans env' = check_for_nans env
          \<and> default_backend env' = default_backend env
          \<and> (\<forall>i d m opts. opt_states_only opts = Some True \<longrightarrow>
                resample_model env' i d m opts = resample_model env i d m opts) \<longrightarrow>
          apply_model env' init_model model data meta project_dir name num_iters ar_only
            save_results verbose results_path parallel_message_passing w
          = apply_model env init_model model data meta project_dir name num_iters ar_only
            save_results verbose results_path parallel_message_passing w)
    \<and> (\<forall>q. model_snapshots (open_append (files (snd (apply_model env init_model model data meta
              project_dir name num_iters ar_only save_results verbose results_path
              parallel_message_passing w))) q)
            = model_snapshots (open_append (files w) q)
          \<and> stored_metadata (open_append (files (snd (apply_model env init_model model data meta
              project_dir name num_iters ar_only save_results verbose results_path
              parallel_message_passing w))) q)
            = stored_metadata (open_append (files w) q)
          \<and> stored_data (open_append (files (snd (apply_model env init_model model data meta
              project_dir name num_iters ar_only save_results verbose results_path
              parallel_message_passing w))) q)
            = stored_data (open_append (files w) q))"
proof -
  let ?w1 = "emit (snd (set_parallel_flag (default_backend env) parallel_message_passing)) w"
  let ?opts = "apply_resample_options env ar_only verbose parallel_message_passing"
  let ?A = "apply_model env init_model model data meta project_dir name num_iters ar_only
        save_results verbose results_path parallel_message_passing w"
  have s0: "s (0 - 1) = init_model data ps hs verbose" using assms(4) by simp
  have loop: "resample_loop env data ?opts (\<lambda>iteration model' w'. w') [0..num_iters - 1]
      (init_model data ps hs verbose) ?w1 = (Inr (s (k - 1)), emit msgs ?w1)"
    using apply_loop_result[OF assms(5,6,7), of ?w1] by (simp only: s0)
  have a: "?A = extract_results (s (k - 1)) meta project_dir name save_results rp (emit msgs ?w1)"
    by (simp add: apply_model_def assms(1,2,3) loop)
  have b: "opt_states_only ?opts = Some True"
    by (simp add: apply_resample_options_def)
  have c: "model_snapshots (open_append (files (snd ?A)) q) = model_snapshots (open_append (files w) q)
      \<and> stored_metadata (open_append (files (snd ?A)) q) = stored_metadata (open_append (files w) q)
      \<and> stored_data (open_append (files (snd ?A)) q) = stored_data (open_append (files w) q)" for q
    using extract_results_frame[of "s (k - 1)" meta project_dir name save_results rp
        "emit msgs ?w1" "fst ?A" "snd ?A" q] a
    by simp
  have d: "apply_model env' init_model model data meta project_dir name num_iters ar_only
            save_results verbose results_path parallel_message_passing w = ?A"
    if "check_for_nans env' = check_for_nans env"
      and "default_backend env' = default_backend env"
      and "\<forall>i d m opts. opt_states_only opts = Some True \<longrightarrow>
                resample_model env' i d m opts = resample_model env i d m opts" for env'
    using that by (rule apply_model_cong)
  from a b c d show ?thesis by blast
qed

text \<open>
  Twenty clean iterations in an environment that faults unless asked for the states only.
\<close>

theorem apply_model_states_only_witness:
  "apply_model states_only_env lagged_init \<lparr>states = None, params = Some (), hypparams = Some ()\<rparr>
      () ([''rec''], [(10, 50)]) None None 20 False False False None Unset
      (no_files :: ((int, unit, unit) model_dict, unit, int) world)
   = extract_results (lagged_init () () () False) ([''rec''], [(10, 50)]) None None False None
      (no_files :: ((int, unit, unit) model_dict, unit, int) world)"
proof -
  let ?s = "\<lambda>i::int. lagged_init () () () False"
  let ?opts = "apply_resample_options states_only_env False False Unset"
  have h1: "params \<lparr>states = None, params = Some (), hypparams = Some ()\<rparr> = Some ()" by simp
  have h2: "hypparams \<lparr>states = None :: int states option, params = Some (), hypparams = Some ()\<rparr>
      = Some ()" by simp
  have h3: "apply_results_path False None None None = Inr None"
    by (simp add: apply_results_path_def)
  have h4: "?s (- 1) = lagged_init () () () False" by simp
  have h5: "(0::int) \<le> 20" by simp
  have h6: "\<forall>i. 0 \<le> i \<and> i < 20 \<longrightarrow>
       clean_step states_only_env () ?opts i (?s (i - 1)) (?s i)"
    by (simp add: clean_step_def states_only_env_def apply_resample_options_def)
  have h7: "((20::int) = max 0 20 \<and> ([]::message list) = [])
       \<or> ((20::int) < 20 \<and> wrapped_resample states_only_env 20 () (?s (20 - 1)) ?opts
            = (Inl StopResampling, []))"
    by simp
  note T = apply_model_states_only[where s = ?s and k = 20 and msgs = "[]" and num_iters = 20
        and env = states_only_env and init_model = lagged_init
        and model = "\<lparr>states = None, params = Some (), hypparams = Some ()\<rparr>"
        and data = "()" and ps = "()" and hs = "()" and verbose = False and ar_only = False
        and parallel_message_passing = Unset and save_results = False and results_path = None
        and project_dir = None and name = None and rp = None
        and meta = "([''rec''], [(10, 50)])"
        and w = "no_files :: ((int, unit, unit) model_dict, unit, int) world",
      OF h1 h2 h3 h4 h5 h6 h7]
  then show ?thesis
    by (simp add: set_parallel_flag_def states_only_env_def)
qed

end
